theory Spec2Isabelle
  imports Main "HOL-Library.Word"
begin

section \<open>Values of the Go program\<close>

text \<open>
  A Go \<^verbatim>\<open>[]byte\<close> and a Go \<^verbatim>\<open>string\<close> are both sequences of bytes; the conversion
  \<^verbatim>\<open>string(b)\<close> copies the bytes. Both are lists of 8-bit characters here and the conversion
  is the identity. A panic is a value: every operation that can panic returns
  \<open>panic + 'a\<close>, with \<open>Inl\<close> carrying the panic message. Go's \<^verbatim>\<open>int\<close> is \<open>int\<close>: the
  only integers of the program are lengths and offsets of one in-memory buffer and exit
  statuses, which stay far from the 64-bit limits.
\<close>

type_synonym bytes = "char list"
type_synonym panic = string
type_synonym go_error = string

abbreviation nl :: char where
  "nl \<equiv> CHR 0x0A"

definition STDOUT :: int where
  "STDOUT = 1"

definition STDERR :: int where
  "STDERR = 2"

text \<open>
  \<^verbatim>\<open>type LineInputCallback func(line string, payload int64)\<close>. A callback is a function of
  the caller with effects of its own; the model names it and records every invocation
  \<^verbatim>\<open>callback(line, payload)\<close>, in order, in the field \<open>calls\<close> of the writer that made it.
\<close>

datatype LineInputCallback = Func string

record simpleGrowingBuffer =
  byteBuffer :: bytes
  LastNewlineOffset :: int

record CompositeWriter =
  Type :: int
  buffer :: simpleGrowingBuffer
  keepBuffer :: bool
  callback :: "LineInputCallback option"
  callbackPayload :: "64 word"
  calls :: "(string \<times> 64 word) list"

section \<open>Slices and \<^verbatim>\<open>bytes.IndexByte\<close>\<close>

text \<open>
  \<^verbatim>\<open>s[lo:]\<close> panics unless \<open>0 \<le> lo \<le> len(s)\<close>. \<^verbatim>\<open>s[lo:hi]\<close> panics unless
  \<open>0 \<le> lo \<le> hi \<le> cap(s)\<close>; the model has no capacity and checks \<open>hi\<close> against the length,
  which is the stricter test.
\<close>

definition slice_from :: "bytes \<Rightarrow> int \<Rightarrow> panic + bytes" where
  "slice_from s lo =
     (if 0 \<le> lo \<and> lo \<le> int (length s) then Inr (drop (nat lo) s)
      else Inl ''slice bounds out of range'')"

definition slice_range :: "bytes \<Rightarrow> int \<Rightarrow> int \<Rightarrow> panic + bytes" where
  "slice_range s lo hi =
     (if 0 \<le> lo \<and> lo \<le> hi \<and> hi \<le> int (length s)
      then Inr (take (nat (hi - lo)) (drop (nat lo) s))
      else Inl ''slice bounds out of range'')"

text \<open>The index of the first instance of \<open>c\<close> in \<open>b\<close>, or \<open>-1\<close> if there is none.\<close>

fun IndexByte :: "bytes \<Rightarrow> char \<Rightarrow> int" where
  "IndexByte [] c = - 1"
| "IndexByte (x # xs) c =
     (if x = c then 0
      else (let r = IndexByte xs c in if r = - 1 then - 1 else 1 + r))"

section \<open>simpleGrowingBuffer\<close>

definition SliceLength :: "simpleGrowingBuffer \<Rightarrow> int" where
  "SliceLength this = int (length (byteBuffer this)) - LastNewlineOffset this"

definition Slice :: "simpleGrowingBuffer \<Rightarrow> panic + bytes" where
  "Slice this = slice_from (byteBuffer this) (LastNewlineOffset this)"

definition SliceNext :: "simpleGrowingBuffer \<Rightarrow> int \<Rightarrow> panic + bytes" where
  "SliceNext this count =
     slice_range (byteBuffer this) (LastNewlineOffset this) (LastNewlineOffset this + count)"

definition Reset :: "simpleGrowingBuffer \<Rightarrow> simpleGrowingBuffer" where
  "Reset this = this\<lparr>byteBuffer := [], LastNewlineOffset := 0\<rparr>"

definition Truncate :: "simpleGrowingBuffer \<Rightarrow> panic + simpleGrowingBuffer" where
  "Truncate this =
     (case Slice this of
        Inl p \<Rightarrow> Inl p
      | Inr s \<Rightarrow> Inr (this\<lparr>byteBuffer := s, LastNewlineOffset := 0\<rparr>))"

definition IncrementOffset :: "simpleGrowingBuffer \<Rightarrow> int \<Rightarrow> simpleGrowingBuffer" where
  "IncrementOffset this delta = this\<lparr>LastNewlineOffset := LastNewlineOffset this + delta\<rparr>"

definition Append :: "simpleGrowingBuffer \<Rightarrow> bytes \<Rightarrow> simpleGrowingBuffer" where
  "Append this p = this\<lparr>byteBuffer := byteBuffer this @ p\<rparr>"

definition Buffer_ToString :: "simpleGrowingBuffer \<Rightarrow> string" where
  "Buffer_ToString this = byteBuffer this"

section \<open>CompositeWriter\<close>

text \<open>
  The methods of \<^verbatim>\<open>CompositeWriter\<close> have value receivers, but the buffer is held by
  pointer, so what they do to the buffer stays; the other fields are never assigned after
  construction. Each method takes the writer and returns it updated. The mutex only
  sequences \<^verbatim>\<open>Write\<close> and \<^verbatim>\<open>Finalize\<close>; calls are taken one after the other.
\<close>

definition NewCompositeWriter ::
  "int \<Rightarrow> LineInputCallback option \<Rightarrow> 64 word \<Rightarrow> bool \<Rightarrow> CompositeWriter" where
  "NewCompositeWriter t cb payload keep =
     \<lparr>Type = t,
      buffer = \<lparr>byteBuffer = [], LastNewlineOffset = 0\<rparr>,
      keepBuffer = keep,
      callback = cb,
      callbackPayload = payload,
      calls = []\<rparr>"

definition ToString :: "CompositeWriter \<Rightarrow> panic + string" where
  "ToString this =
     (if keepBuffer this = False then Inl ''KeepBuffer = false for this composite writer''
      else Inr (Buffer_ToString (buffer this)))"

definition invoke :: "CompositeWriter \<Rightarrow> string \<Rightarrow> CompositeWriter" where
  "invoke this line = this\<lparr>calls := calls this @ [(line, callbackPayload this)]\<rparr>"

text \<open>
  The loop of \<^verbatim>\<open>Write\<close>, entered with the position of the first newline of the
  unconsumed slice (or \<open>-1\<close>) and the flag \<^verbatim>\<open>foundSmth\<close>.
\<close>

function Write_loop :: "CompositeWriter \<Rightarrow> bool \<Rightarrow> int \<Rightarrow> panic + (CompositeWriter \<times> bool)" where
  "Write_loop this foundSmth pos =
     (if pos \<noteq> - 1 then
        (case SliceNext (buffer this) pos of
           Inl p \<Rightarrow> Inl p
         | Inr line \<Rightarrow>
             (case Slice (IncrementOffset (buffer this) (pos + 1)) of
                Inl p \<Rightarrow> Inl p
              | Inr s \<Rightarrow>
                  Write_loop
                    ((invoke this line)\<lparr>buffer := IncrementOffset (buffer this) (pos + 1)\<rparr>)
                    True (IndexByte s nl)))
      else Inr (this, foundSmth))"
  by pat_completeness auto
termination
proof (relation "measure (\<lambda>(this, foundSmth, pos).
         nat (int (length (byteBuffer (buffer this))) - LastNewlineOffset (buffer this)))")
  show "wf (measure (\<lambda>(this, foundSmth, pos).
         nat (int (length (byteBuffer (buffer this))) - LastNewlineOffset (buffer this))))"
    by simp
next
  fix this :: CompositeWriter and foundSmth :: bool and pos :: int and line s :: bytes
  assume a: "SliceNext (buffer this) pos = Inr line"
    and b: "Slice (IncrementOffset (buffer this) (pos + 1)) = Inr s"
  from a have "0 \<le> LastNewlineOffset (buffer this) \<and> 0 \<le> pos"
    by (auto simp: SliceNext_def slice_range_def split: if_splits)
  moreover from b have
    "LastNewlineOffset (buffer this) + (pos + 1) \<le> int (length (byteBuffer (buffer this)))"
    by (auto simp: Slice_def slice_from_def IncrementOffset_def split: if_splits)
  ultimately show
    "(((invoke this line)\<lparr>buffer := IncrementOffset (buffer this) (pos + 1)\<rparr>, True, IndexByte s nl),
      (this, foundSmth, pos))
     \<in> measure (\<lambda>(this, foundSmth, pos).
         nat (int (length (byteBuffer (buffer this))) - LastNewlineOffset (buffer this)))"
    by (simp add: IncrementOffset_def invoke_def)
qed

declare Write_loop.simps [simp del]

text \<open>\<^verbatim>\<open>Write\<close> returns the writer and the pair \<^verbatim>\<open>(n, err)\<close> of the Go method.\<close>

definition Write ::
  "CompositeWriter \<Rightarrow> bytes \<Rightarrow> panic + (CompositeWriter \<times> int \<times> go_error option)" where
  "Write this p =
     (let this1 = this\<lparr>buffer := Append (buffer this) p\<rparr> in
      if callback this1 \<noteq> None then
        (case Slice (buffer this1) of
           Inl e \<Rightarrow> Inl e
         | Inr s \<Rightarrow>
             (case Write_loop this1 False (IndexByte s nl) of
                Inl e \<Rightarrow> Inl e
              | Inr (this2, foundSmth) \<Rightarrow>
                  if foundSmth \<and> \<not> keepBuffer this2 then
                    (case Truncate (buffer this2) of
                       Inl e \<Rightarrow> Inl e
                     | Inr b \<Rightarrow> Inr (this2\<lparr>buffer := b\<rparr>, int (length p), None))
                  else Inr (this2, int (length p), None)))
      else Inr (this1, int (length p), None))"

definition Finalize :: "CompositeWriter \<Rightarrow> panic + CompositeWriter" where
  "Finalize this =
     (if callback this \<noteq> None then
        (let pos = SliceLength (buffer this) in
         if pos > 0 then
           (case SliceNext (buffer this) pos of
              Inl e \<Rightarrow> Inl e
            | Inr line \<Rightarrow>
                if \<not> keepBuffer this
                then Inr ((invoke this line)\<lparr>buffer := Reset (buffer this)\<rparr>)
                else Inr ((invoke this line)\<lparr>buffer := IncrementOffset (buffer this) pos\<rparr>))
         else Inr this)
      else Inr this)"

text \<open>A sequence of \<^verbatim>\<open>Write\<close> calls, one per chunk; a panic ends it.\<close>

fun Writes :: "CompositeWriter \<Rightarrow> bytes list \<Rightarrow> panic + CompositeWriter" where
  "Writes this [] = Inr this"
| "Writes this (p # ps) =
     (case Write this p of
        Inl e \<Rightarrow> Inl e
      | Inr (this1, n, err) \<Rightarrow> Writes this1 ps)"

section \<open>The process collaborators\<close>

text \<open>
  \<^verbatim>\<open>os/exec\<close>, \<^verbatim>\<open>os\<close>, \<^verbatim>\<open>io/ioutil\<close> and \<^verbatim>\<open>syscall\<close> are outside the repository. What their
  calls return during one execution is a parameter, the record \<open>world\<close>:
  \<^item> \<open>StdoutPipe\<close>, \<open>StderrPipe\<close>: the error of \<^verbatim>\<open>cmd.StdoutPipe()\<close>, \<^verbatim>\<open>cmd.StderrPipe()\<close>
    (\<open>None\<close> is \<^verbatim>\<open>nil\<close>);
  \<^item> \<open>Environ\<close>: \<^verbatim>\<open>os.Environ()\<close>;
  \<^item> \<open>Start\<close>: the error of \<^verbatim>\<open>cmd.Start()\<close>;
  \<^item> \<open>ReadAll_Stdout\<close>, \<open>ReadAll_Stderr\<close>: \<^verbatim>\<open>ioutil.ReadAll\<close> on the two pipes, an error
    or the bytes read;
  \<^item> \<open>Stdout_writes\<close>, \<open>Stderr_writes\<close>: the chunks that the copying goroutines of
    \<^verbatim>\<open>os/exec\<close> pass to \<^verbatim>\<open>Write\<close> of a writer installed as \<^verbatim>\<open>cmd.Stdout\<close>, \<^verbatim>\<open>cmd.Stderr\<close>;
    \<^verbatim>\<open>cmd.Wait()\<close> returns after the last of them, and an execution that ends before
    \<^verbatim>\<open>Wait\<close> does not look at the writers;
  \<^item> \<open>Wait\<close>: the error of \<^verbatim>\<open>cmd.Wait()\<close>.
  An \<^verbatim>\<open>*exec.ExitError\<close> carries the result of the type assertion
  \<^verbatim>\<open>exiterr.Sys().(syscall.WaitStatus)\<close>: the status, or \<open>None\<close> when the assertion fails.
  A \<open>WaitStatus\<close> carries what its method \<^verbatim>\<open>ExitStatus()\<close> returns.
\<close>

datatype WaitStatus = WaitStatus int

fun ExitStatus :: "WaitStatus \<Rightarrow> int" where
  "ExitStatus (WaitStatus n) = n"

datatype wait_error = ExitError "WaitStatus option" | OtherError go_error

record world =
  StdoutPipe :: "go_error option"
  StderrPipe :: "go_error option"
  Environ :: "string list"
  Start :: "go_error option"
  ReadAll_Stdout :: "go_error + bytes"
  ReadAll_Stderr :: "go_error + bytes"
  Stdout_writes :: "bytes list"
  Stderr_writes :: "bytes list"
  Wait :: "wait_error option"

text \<open>
  \<^verbatim>\<open>exec.Cmd\<close>, with the fields the program reads or assigns. \<^verbatim>\<open>cmd.Stdout\<close> is an
  \<^verbatim>\<open>io.Writer\<close>: \<^verbatim>\<open>nil\<close>, the write end of the pipe that \<^verbatim>\<open>StdoutPipe\<close> installs, a
  \<^verbatim>\<open>*CompositeWriter\<close>, or some other writer a caller has set.
\<close>

datatype Writer = PipeWriter | Composite CompositeWriter | OtherWriter

datatype ReadCloser = PipeReader

datatype Process = Started

record Cmd =
  Path :: string
  Cmd_Args :: "string list"
  Env :: "string list option"
  Cmd_Stdout :: "Writer option"
  Cmd_Stderr :: "Writer option"
  Process :: "Process option"

text \<open>\<^verbatim>\<open>exec.Command(name, arg...)\<close>; a failed path lookup is reported by \<^verbatim>\<open>Start\<close>.\<close>

definition exec_Command :: "string \<Rightarrow> string list \<Rightarrow> Cmd" where
  "exec_Command name arg =
     \<lparr>Path = name, Cmd_Args = name # arg, Env = None, Cmd_Stdout = None, Cmd_Stderr = None,
      Process = None\<rparr>"

section \<open>CommandExecution\<close>

text \<open>
  \<^verbatim>\<open>Environment\<close> is a Go map; \<^verbatim>\<open>Begin\<close> ranges over it in an order Go leaves open, and
  the model takes the pairs in the order of the list.
\<close>

record CommandExecution =
  Command :: string
  Args :: "string list"
  Environment :: "(string \<times> string) list option"
  LogExecution :: bool
  AutoReadStdout :: bool
  AutoReadStderr :: bool
  WrappedCmd :: "Cmd option"
  StdoutReader :: "ReadCloser option"
  StderrReader :: "ReadCloser option"
  Stdout :: string
  Stderr :: string
  ExitCode :: int

text \<open>
  What a method does to the request through its pointer receiver stays when the method
  returns an error or panics, so \<^verbatim>\<open>Run\<close> returns the request together with how it ended.
  \<^verbatim>\<open>GetFormattedError\<close> only formats a message from the fields and has no definition here.
\<close>

datatype outcome = Returned "go_error option" | Panicked panic

definition New :: "string \<Rightarrow> string list \<Rightarrow> CommandExecution" where
  "New command args =
     \<lparr>Command = command,
      Args = args,
      Environment = None,
      LogExecution = False,
      AutoReadStdout = True,
      AutoReadStderr = True,
      WrappedCmd = None,
      StdoutReader = None,
      StderrReader = None,
      Stdout = ''-- stdout: this command has never been executed --'',
      Stderr = ''-- stderr: this command has never been executed --'',
      ExitCode = - 1\<rparr>"

text \<open>
  \<^verbatim>\<open>Begin\<close>. The line that \<^verbatim>\<open>LogExecution\<close> sends to the process log changes neither
  the request nor the command and is left out.
\<close>

definition Begin :: "world \<Rightarrow> CommandExecution \<Rightarrow> CommandExecution \<times> go_error option" where
  "Begin os self =
     (let cmd = exec_Command (Command self) (Args self) in
      case (if AutoReadStdout self then
              (case StdoutPipe os of
                 Some err \<Rightarrow> Inl err
               | None \<Rightarrow> Inr (self\<lparr>StdoutReader := Some PipeReader\<rparr>,
                              cmd\<lparr>Cmd_Stdout := Some PipeWriter\<rparr>))
            else Inr (self, cmd)) of
        Inl err \<Rightarrow> (self, Some err)
      | Inr (self1, cmd1) \<Rightarrow>
          (case (if AutoReadStderr self1 then
                   (case StderrPipe os of
                      Some err \<Rightarrow> Inl err
                    | None \<Rightarrow> Inr (self1\<lparr>StderrReader := Some PipeReader\<rparr>,
                                   cmd1\<lparr>Cmd_Stderr := Some PipeWriter\<rparr>))
                 else Inr (self1, cmd1)) of
             Inl err \<Rightarrow> (self1, Some err)
           | Inr (self2, cmd2) \<Rightarrow>
               (let cmd3 = (case Environment self2 of
                              None \<Rightarrow> cmd2
                            | Some env \<Rightarrow>
                                cmd2\<lparr>Env := Some (Environ os @ map (\<lambda>(k, v). k @ ''='' @ v) env)\<rparr>)
                in (self2\<lparr>WrappedCmd := Some cmd3\<rparr>, None))))"

text \<open>
  The end of \<^verbatim>\<open>Run\<close>: the classification of what \<^verbatim>\<open>Wait\<close> returned.
\<close>

definition Run_classify :: "wait_error option \<Rightarrow> CommandExecution \<Rightarrow> CommandExecution \<times> outcome" where
  "Run_classify err self =
     (case err of
        Some (ExitError sys) \<Rightarrow>
          (case sys of
             Some status \<Rightarrow> (self\<lparr>ExitCode := ExitStatus status\<rparr>, Returned None)
           | None \<Rightarrow> (self, Panicked ''cannot retrieve exit code''))
      | Some (OtherError e) \<Rightarrow> (self, Returned (Some e))
      | None \<Rightarrow> (self\<lparr>ExitCode := 0\<rparr>, Returned None))"

text \<open>
  One of the two type switches of \<^verbatim>\<open>Run\<close>: a \<^verbatim>\<open>*CompositeWriter\<close> is finalized and, when
  it keeps its buffer, read out and reset. The result is the writer and the text for the
  result field, which stays \<open>out\<close> when nothing is read out.
\<close>

definition finalize_writer :: "Writer option \<Rightarrow> string \<Rightarrow> panic + (Writer option \<times> string)" where
  "finalize_writer w out =
     (case w of
        Some (Composite cw) \<Rightarrow>
          (case Finalize cw of
             Inl p \<Rightarrow> Inl p
           | Inr cw1 \<Rightarrow>
               if keepBuffer cw1 then
                 (case ToString cw1 of
                    Inl p \<Rightarrow> Inl p
                  | Inr s \<Rightarrow> Inr (Some (Composite (cw1\<lparr>buffer := Reset (buffer cw1)\<rparr>)), s))
               else Inr (Some (Composite cw1), out))
      | _ \<Rightarrow> Inr (w, out))"

text \<open>The writes that reach a \<^verbatim>\<open>*CompositeWriter\<close> while the process runs.\<close>

definition deliver :: "Writer option \<Rightarrow> bytes list \<Rightarrow> panic + Writer option" where
  "deliver w chunks =
     (case w of
        Some (Composite cw) \<Rightarrow>
          (case Writes cw chunks of
             Inl p \<Rightarrow> Inl p
           | Inr cw1 \<Rightarrow> Inr (Some (Composite cw1)))
      | _ \<Rightarrow> Inr w)"

text \<open>\<^verbatim>\<open>Run\<close> from \<^verbatim>\<open>Wait\<close> on, for a started command \<open>cmd\<close>.\<close>

definition Run_wait :: "world \<Rightarrow> CommandExecution \<Rightarrow> Cmd \<Rightarrow> CommandExecution \<times> outcome" where
  "Run_wait os self cmd =
     (case deliver (Cmd_Stdout cmd) (Stdout_writes os) of
        Inl p \<Rightarrow> (self\<lparr>WrappedCmd := Some cmd\<rparr>, Panicked p)
      | Inr w1 \<Rightarrow>
          (case deliver (Cmd_Stderr cmd) (Stderr_writes os) of
             Inl p \<Rightarrow> (self\<lparr>WrappedCmd := Some (cmd\<lparr>Cmd_Stdout := w1\<rparr>)\<rparr>, Panicked p)
           | Inr w2 \<Rightarrow>
               (let cmd1 = cmd\<lparr>Cmd_Stdout := w1, Cmd_Stderr := w2\<rparr>;
                    err = Wait os in
                case finalize_writer (Cmd_Stdout cmd1) (Stdout self) of
                  Inl p \<Rightarrow> (self\<lparr>WrappedCmd := Some cmd1\<rparr>, Panicked p)
                | Inr (w3, out) \<Rightarrow>
                    (let cmd2 = cmd1\<lparr>Cmd_Stdout := w3\<rparr>;
                         self1 = self\<lparr>Stdout := out\<rparr> in
                     case finalize_writer (Cmd_Stderr cmd2) (Stderr self1) of
                       Inl p \<Rightarrow> (self1\<lparr>WrappedCmd := Some cmd2\<rparr>, Panicked p)
                     | Inr (w4, errout) \<Rightarrow>
                         Run_classify err
                           (self1\<lparr>Stderr := errout,
                                  WrappedCmd := Some (cmd2\<lparr>Cmd_Stderr := w4\<rparr>)\<rparr>)))))"

text \<open>\<^verbatim>\<open>Run\<close> from the two \<^verbatim>\<open>ioutil.ReadAll\<close> calls on.\<close>

definition Run_read :: "world \<Rightarrow> CommandExecution \<Rightarrow> Cmd \<Rightarrow> CommandExecution \<times> outcome" where
  "Run_read os self cmd =
     (case (if StdoutReader self \<noteq> None then
              (case ReadAll_Stdout os of
                 Inl err \<Rightarrow> Inl err
               | Inr bytes \<Rightarrow> Inr (self\<lparr>Stdout := bytes\<rparr>))
            else Inr self) of
        Inl err \<Rightarrow> (self, Returned (Some err))
      | Inr self1 \<Rightarrow>
          (case (if StderrReader self1 \<noteq> None then
                   (case ReadAll_Stderr os of
                      Inl err \<Rightarrow> Inl err
                    | Inr bytes \<Rightarrow> Inr (self1\<lparr>Stderr := bytes\<rparr>))
                 else Inr self1) of
             Inl err \<Rightarrow> (self1, Returned (Some err))
           | Inr self2 \<Rightarrow> Run_wait os self2 cmd))"

definition Run :: "world \<Rightarrow> CommandExecution \<Rightarrow> CommandExecution \<times> outcome" where
  "Run os self =
     (case (if WrappedCmd self = None then Begin os self else (self, None)) of
        (self1, Some err) \<Rightarrow> (self1, Returned (Some err))
      | (self1, None) \<Rightarrow>
          (case WrappedCmd self1 of
             None \<Rightarrow> (self1, Panicked ''invalid memory address or nil pointer dereference'')
           | Some cmd \<Rightarrow>
               (case (if Process cmd = None then
                        (case Start os of
                           Some err \<Rightarrow> Inl err
                         | None \<Rightarrow> Inr (cmd\<lparr>Process := Some Started\<rparr>))
                      else Inr cmd) of
                  Inl err \<Rightarrow> (self1, Returned (Some err))
                | Inr cmd1 \<Rightarrow> Run_read os (self1\<lparr>WrappedCmd := Some cmd1\<rparr>) cmd1)))"

definition RunWithCallbacks ::
  "world \<Rightarrow> CommandExecution \<Rightarrow> LineInputCallback option \<Rightarrow> LineInputCallback option \<Rightarrow>
   64 word \<Rightarrow> 64 word \<Rightarrow> bool \<Rightarrow> bool \<Rightarrow> CommandExecution \<times> outcome" where
  "RunWithCallbacks os this stdoutCb stderrCb stdoutPayload stderrPayload keepStdout keepStderr =
     (let this1 = (if stdoutCb \<noteq> None then this\<lparr>AutoReadStdout := False\<rparr> else this);
          this2 = (if stderrCb \<noteq> None then this1\<lparr>AutoReadStderr := False\<rparr> else this1) in
      case Begin os this2 of
        (this3, Some err) \<Rightarrow> (this3, Returned (Some err))
      | (this3, None) \<Rightarrow>
          (case WrappedCmd this3 of
             None \<Rightarrow> (this3, Panicked ''invalid memory address or nil pointer dereference'')
           | Some cmd \<Rightarrow>
               (let cmd1 = (if stdoutCb \<noteq> None
                            then cmd\<lparr>Cmd_Stdout := Some (Composite
                                   (NewCompositeWriter STDOUT stdoutCb stdoutPayload keepStdout))\<rparr>
                            else cmd);
                    cmd2 = (if stderrCb \<noteq> None
                            then cmd1\<lparr>Cmd_Stderr := Some (Composite
                                   (NewCompositeWriter STDERR stderrCb stderrPayload keepStderr))\<rparr>
                            else cmd1)
                in Run os (this3\<lparr>WrappedCmd := Some cmd2\<rparr>))))"

section \<open>SSH\<close>

text \<open>
  The package variable \<^verbatim>\<open>ExtraSshOptions\<close> is read when \<^verbatim>\<open>prepareSshArgs\<close> runs; it is the
  first argument here. The result of Go's \<^verbatim>\<open>append\<close> holds the elements of its first
  argument followed by the appended ones; whether it shares its array with
  \<^verbatim>\<open>ExtraSshOptions\<close> is not part of the model.
\<close>

definition prepareSshArgs :: "string list \<Rightarrow> string \<Rightarrow> string list \<Rightarrow> string list" where
  "prepareSshArgs ExtraSshOptions host args =
     (let a = ExtraSshOptions @
                [''-o'', ''UserKnownHostsFile=/dev/null'', ''-o'', ''StrictHostKeyChecking=no'',
                 ''-o'', ''LogLevel=ERROR'', host];
          a = a @ args
      in a)"

definition NewSsh :: "string list \<Rightarrow> string \<Rightarrow> string list \<Rightarrow> CommandExecution" where
  "NewSsh ExtraSshOptions host args = New ''ssh'' (prepareSshArgs ExtraSshOptions host args)"

section \<open>Notions for stating the properties\<close>

text \<open>
  The stream that a writer has received is the concatenation of the chunks written to it.
  \<open>terminated ls\<close> is the stream of the lines \<open>ls\<close>, each followed by a newline. \<open>lines_from cur s\<close> are the newline-terminated lines of \<open>cur @ s\<close> and
  \<open>rest_from cur s\<close> is what follows the last newline, when \<open>cur\<close> holds no newline.
\<close>

definition terminated :: "bytes list \<Rightarrow> bytes" where
  "terminated ls = concat (map (\<lambda>l. l @ [nl]) ls)"

primrec lines_from :: "bytes \<Rightarrow> bytes \<Rightarrow> bytes list" where
  "lines_from cur [] = []"
| "lines_from cur (c # cs) =
     (if c = nl then cur # lines_from [] cs else lines_from (cur @ [c]) cs)"

primrec rest_from :: "bytes \<Rightarrow> bytes \<Rightarrow> bytes" where
  "rest_from cur [] = cur"
| "rest_from cur (c # cs) =
     (if c = nl then rest_from [] cs else rest_from (cur @ [c]) cs)"

text \<open>
  The invariant of the buffer (the offset lies inside the accumulated bytes), the unconsumed
  slice, and the relation between a writer with a callback and the stream \<open>S\<close> it has
  received: every terminated line of \<open>S\<close> has been passed to the callback, the unconsumed
  slice is the unterminated rest of \<open>S\<close>, and the buffer holds all of \<open>S\<close> when it is kept
  and has offset \<open>0\<close> otherwise.
\<close>

definition buffer_ok :: "simpleGrowingBuffer \<Rightarrow> bool" where
  "buffer_ok b \<longleftrightarrow> 0 \<le> LastNewlineOffset b \<and> LastNewlineOffset b \<le> int (length (byteBuffer b))"

definition unconsumed :: "simpleGrowingBuffer \<Rightarrow> bytes" where
  "unconsumed b = drop (nat (LastNewlineOffset b)) (byteBuffer b)"

definition tracks :: "CompositeWriter \<Rightarrow> bytes \<Rightarrow> bool" where
  "tracks this S \<longleftrightarrow>
     calls this = map (\<lambda>l. (l, callbackPayload this)) (lines_from [] S) \<and>
     buffer_ok (buffer this) \<and>
     unconsumed (buffer this) = rest_from [] S \<and>
     (if keepBuffer this then byteBuffer (buffer this) = S
      else LastNewlineOffset (buffer this) = 0)"

definition same_setup :: "CompositeWriter \<Rightarrow> CompositeWriter \<Rightarrow> bool" where
  "same_setup a b \<longleftrightarrow>
     Type a = Type b \<and> keepBuffer a = keepBuffer b \<and> callback a = callback b \<and>
     callbackPayload a = callbackPayload b"

definition writer_ok :: "Writer option \<Rightarrow> bool" where
  "writer_ok w \<longleftrightarrow> (case w of Some (Composite cw) \<Rightarrow> buffer_ok (buffer cw) | _ \<Rightarrow> True)"

text \<open>
  The bound of the retention-off property, in the words of the specification: the
  unterminated line of a stream is what follows its last newline, and the longest
  unterminated line seen so far is the longest one over all prefixes of the stream.
  \<open>buffer_bounded r stream\<close> says that the writes returned a writer whose buffer is no
  longer than that.
\<close>

definition pending_line :: "bytes \<Rightarrow> bytes" where
  "pending_line s = rev (takeWhile (\<lambda>c. c \<noteq> nl) (rev s))"

definition longest_unterminated_line :: "bytes \<Rightarrow> nat" where
  "longest_unterminated_line s =
     Max (set (map (\<lambda>k. length (pending_line (take k s))) [0..<Suc (length s)]))"

definition buffer_bounded :: "panic + CompositeWriter \<Rightarrow> bytes \<Rightarrow> bool" where
  "buffer_bounded r stream =
     (case r of
        Inl e \<Rightarrow> False
      | Inr this \<Rightarrow> length (byteBuffer (buffer this)) \<le> longest_unterminated_line stream)"

text \<open>
  What \<^verbatim>\<open>cmd.Wait()\<close> returns for a process that ran and exited with status \<open>n\<close>:
  \<^verbatim>\<open>nil\<close> for status \<open>0\<close>, and otherwise an \<^verbatim>\<open>*exec.ExitError\<close> whose \<^verbatim>\<open>Sys()\<close> is a
  \<^verbatim>\<open>syscall.WaitStatus\<close> with \<^verbatim>\<open>ExitStatus() = n\<close>.
\<close>

definition Wait_of_exit_status :: "int \<Rightarrow> wait_error option" where
  "Wait_of_exit_status n = (if n = 0 then None else Some (ExitError (Some (WaitStatus n))))"

text \<open>
  How the exit code after \<^verbatim>\<open>Run\<close> relates to the one before: when \<^verbatim>\<open>Run\<close> returns
  \<^verbatim>\<open>nil\<close> the wait result was classified and the exit code is \<open>0\<close> for \<^verbatim>\<open>nil\<close> and the
  reported status for an exit error; in every other outcome the exit code is untouched.
\<close>

definition settled :: "world \<Rightarrow> CommandExecution \<Rightarrow> CommandExecution \<times> outcome \<Rightarrow> bool" where
  "settled os self r \<longleftrightarrow>
     (if snd r = Returned None
      then (case Wait os of
              None \<Rightarrow> ExitCode (fst r) = 0
            | Some (ExitError (Some st)) \<Rightarrow> ExitCode (fst r) = ExitStatus st
            | _ \<Rightarrow> False)
      else ExitCode (fst r) = ExitCode self)"

text \<open>A world in which every call succeeds, no output arrives and the process exits with \<open>0\<close>.\<close>

definition quiet_world :: world where
  "quiet_world =
     \<lparr>StdoutPipe = None, StderrPipe = None, Environ = [''PATH=/bin''], Start = None,
      ReadAll_Stdout = Inr [], ReadAll_Stderr = Inr [],
      Stdout_writes = [], Stderr_writes = [], Wait = None\<rparr>"

section \<open>Lemmas on lines\<close>

lemma IndexByte_absent: "c \<notin> set s \<Longrightarrow> IndexByte s c = - 1"
  by (induction s) auto

lemma IndexByte_first: "c \<notin> set l \<Longrightarrow> IndexByte (l @ c # r) c = int (length l)"
  by (induction l) (auto simp: Let_def)

lemma lines_from_no_nl: "nl \<notin> set s \<Longrightarrow> lines_from cur s = []"
  by (induction s arbitrary: cur) auto

lemma rest_from_no_nl: "nl \<notin> set s \<Longrightarrow> rest_from cur s = cur @ s"
  by (induction s arbitrary: cur) auto

lemma lines_from_line:
  "nl \<notin> set l \<Longrightarrow> lines_from cur (l @ nl # r) = (cur @ l) # lines_from [] r"
  by (induction l arbitrary: cur) auto

lemma rest_from_line:
  "nl \<notin> set l \<Longrightarrow> rest_from cur (l @ nl # r) = rest_from [] r"
  by (induction l arbitrary: cur) auto

lemma lines_from_terminated:
  "\<forall>l\<in>set ls. nl \<notin> set l \<Longrightarrow> nl \<notin> set suf \<Longrightarrow> lines_from [] (terminated ls @ suf) = ls"
  by (induction ls) (auto simp: terminated_def lines_from_no_nl lines_from_line)

lemma rest_from_terminated:
  "\<forall>l\<in>set ls. nl \<notin> set l \<Longrightarrow> nl \<notin> set suf \<Longrightarrow> rest_from [] (terminated ls @ suf) = suf"
  by (induction ls) (auto simp: terminated_def rest_from_no_nl rest_from_line)

lemma split_from: "terminated (lines_from cur s) @ rest_from cur s = cur @ s"
proof (induction s arbitrary: cur)
  case Nil
  show ?case by (simp add: terminated_def)
next
  case (Cons c cs)
  show ?case
  proof (cases "c = nl")
    case True
    with Cons.IH [of "[]"] show ?thesis by (simp add: terminated_def)
  next
    case False
    with Cons.IH [of "cur @ [c]"] show ?thesis by simp
  qed
qed

lemma lines_from_clean:
  "nl \<notin> set cur \<Longrightarrow> l \<in> set (lines_from cur s) \<Longrightarrow> nl \<notin> set l"
proof (induction s arbitrary: cur)
  case Nil
  then show ?case by simp
next
  case (Cons c cs)
  show ?case
  proof (cases "c = nl")
    case True
    with Cons.prems have "l = cur \<or> l \<in> set (lines_from [] cs)" by simp
    then show ?thesis using Cons.prems(1) Cons.IH [of "[]"] by auto
  next
    case False
    with Cons.prems have "l \<in> set (lines_from (cur @ [c]) cs)" by simp
    moreover have "nl \<notin> set (cur @ [c])" using False Cons.prems(1) by simp
    ultimately show ?thesis by (rule Cons.IH [rotated])
  qed
qed

lemma rest_from_clean: "nl \<notin> set cur \<Longrightarrow> nl \<notin> set (rest_from cur s)"
  by (induction s arbitrary: cur) auto

lemma lines_from_append:
  "lines_from cur (a @ b) = lines_from cur a @ lines_from (rest_from cur a) b"
  by (induction a arbitrary: cur) auto

lemma rest_from_append: "rest_from cur (a @ b) = rest_from (rest_from cur a) b"
  by (induction a arbitrary: cur) auto

lemma lines_from_cur: "nl \<notin> set cur \<Longrightarrow> lines_from cur s = lines_from [] (cur @ s)"
  by (simp add: lines_from_append lines_from_no_nl rest_from_no_nl)

lemma rest_from_cur: "nl \<notin> set cur \<Longrightarrow> rest_from cur s = rest_from [] (cur @ s)"
  by (simp add: rest_from_append rest_from_no_nl)

section \<open>Lemmas on the writer\<close>

text \<open>
  The loop of \<^verbatim>\<open>Write\<close> on a buffer whose unconsumed slice is \<open>terminated ls @ suf\<close>:
  it does not panic, invokes the callback for each line of \<open>ls\<close> and moves the offset past
  their terminators.
\<close>

lemma Write_loop_lines:
  assumes "\<forall>l\<in>set ls. nl \<notin> set l" and "nl \<notin> set suf"
    and "byteBuffer (buffer this) = pre @ terminated ls @ suf"
    and "LastNewlineOffset (buffer this) = int (length pre)"
  shows "Write_loop this found (IndexByte (terminated ls @ suf) nl) =
           Inr (this\<lparr>buffer := (buffer this)\<lparr>LastNewlineOffset := int (length pre + length (terminated ls))\<rparr>,
                     calls := calls this @ map (\<lambda>l. (l, callbackPayload this)) ls\<rparr>,
                found \<or> ls \<noteq> [])"
  using assms
proof (induction ls arbitrary: this found pre)
  case Nil
  then show ?case
    by (simp add: terminated_def IndexByte_absent Write_loop.simps)
next
  case (Cons l ls)
  let ?b = "buffer this"
  have l: "nl \<notin> set l" using Cons.prems(1) by simp
  have t: "terminated (l # ls) @ suf = l @ nl # (terminated ls @ suf)"
    by (simp add: terminated_def)
  have pos: "IndexByte (terminated (l # ls) @ suf) nl = int (length l)"
    unfolding t using l by (rule IndexByte_first)
  have sn: "SliceNext ?b (int (length l)) = Inr l"
    using Cons.prems(3,4) by (simp add: SliceNext_def slice_range_def t)
  have sl: "Slice (IncrementOffset ?b (int (length l) + 1)) = Inr (terminated ls @ suf)"
    using Cons.prems(3,4) by (simp add: Slice_def slice_from_def IncrementOffset_def t nat_add_distrib)
  let ?this' = "(invoke this l)\<lparr>buffer := IncrementOffset ?b (int (length l) + 1)\<rparr>"
  have ih: "Write_loop ?this' True (IndexByte (terminated ls @ suf) nl) =
     Inr (?this'\<lparr>buffer := (buffer ?this')\<lparr>LastNewlineOffset := int (length (pre @ l @ [nl]) + length (terminated ls))\<rparr>,
                     calls := calls ?this' @ map (\<lambda>l. (l, callbackPayload ?this')) ls\<rparr>,
                True \<or> ls \<noteq> [])"
    apply (rule Cons.IH)
    using Cons.prems by (simp_all add: IncrementOffset_def invoke_def t)
  show ?case
    apply (subst Write_loop.simps)
    apply (simp add: pos sn sl ih del: IndexByte.simps)
    apply (simp add: invoke_def IncrementOffset_def terminated_def)
    done
qed

lemma Write_effect:
  assumes cb: "callback this \<noteq> None" and ok: "buffer_ok (buffer this)"
  shows "Write this p =
    Inr (this\<lparr>buffer :=
                (if lines_from [] (unconsumed (buffer this) @ p) \<noteq> [] \<and> \<not> keepBuffer this
                 then \<lparr>byteBuffer = rest_from [] (unconsumed (buffer this) @ p),
                       LastNewlineOffset = 0\<rparr>
                 else \<lparr>byteBuffer = byteBuffer (buffer this) @ p,
                       LastNewlineOffset = LastNewlineOffset (buffer this) +
                         int (length (terminated (lines_from [] (unconsumed (buffer this) @ p))))\<rparr>),
              calls := calls this @
                map (\<lambda>l. (l, callbackPayload this)) (lines_from [] (unconsumed (buffer this) @ p))\<rparr>,
         int (length p), None)"
proof -
  define bb where "bb = byteBuffer (buffer this)"
  define off where "off = LastNewlineOffset (buffer this)"
  define pre where "pre = take (nat off) bb"
  define r where "r = unconsumed (buffer this)"
  define ls where "ls = lines_from [] (r @ p)"
  define suf where "suf = rest_from [] (r @ p)"
  define this1 where "this1 = this\<lparr>buffer := Append (buffer this) p\<rparr>"
  from ok have off: "0 \<le> off" "off \<le> int (length bb)"
    by (simp_all add: buffer_ok_def bb_def off_def)
  have bb: "bb = pre @ r" by (simp add: pre_def r_def unconsumed_def bb_def off_def)
  have lpre: "int (length pre) = off" using off by (simp add: pre_def)
  have split: "r @ p = terminated ls @ suf"
    using split_from [of "[]" "r @ p"] by (simp add: ls_def suf_def)
  have lsclean: "\<forall>l\<in>set ls. nl \<notin> set l"
    unfolding ls_def using lines_from_clean [of "[]"] by auto
  have sufclean: "nl \<notin> set suf" unfolding suf_def by (rule rest_from_clean) simp
  have b1: "byteBuffer (buffer this1) = pre @ terminated ls @ suf"
    using bb split by (simp add: this1_def Append_def bb_def)
  have o1: "LastNewlineOffset (buffer this1) = int (length pre)"
    using lpre by (simp add: this1_def Append_def off_def)
  have sl1: "Slice (buffer this1) = Inr (terminated ls @ suf)"
    unfolding Slice_def slice_from_def b1 o1 by simp
  define this2 where "this2 = this1\<lparr>buffer := (buffer this1)\<lparr>LastNewlineOffset :=
      int (length pre + length (terminated ls))\<rparr>,
      calls := calls this1 @ map (\<lambda>l. (l, callbackPayload this1)) ls\<rparr>"
  have loop: "Write_loop this1 False (IndexByte (terminated ls @ suf) nl) = Inr (this2, ls \<noteq> [])"
    using Write_loop_lines [OF lsclean sufclean b1 o1, of False] by (simp add: this2_def)
  have b2: "byteBuffer (buffer this2) = pre @ terminated ls @ suf"
    using b1 by (simp add: this2_def)
  have o2: "LastNewlineOffset (buffer this2) = int (length pre + length (terminated ls))"
    by (simp add: this2_def)
  have k2: "keepBuffer this2 = keepBuffer this" by (simp add: this2_def this1_def)
  have cb1: "callback this1 \<noteq> None" using cb by (simp add: this1_def)
  show ?thesis
  proof (cases "ls \<noteq> [] \<and> \<not> keepBuffer this")
    case True
    have tr2: "Truncate (buffer this2) = Inr ((buffer this2)\<lparr>byteBuffer := suf, LastNewlineOffset := 0\<rparr>)"
      by (simp add: Truncate_def Slice_def slice_from_def b2 o2)
    have "Write this p =
        Inr (this2\<lparr>buffer := (buffer this2)\<lparr>byteBuffer := suf, LastNewlineOffset := 0\<rparr>\<rparr>,
             int (length p), None)"
      using True cb1 by (simp add: Write_def Let_def this1_def [symmetric] sl1 loop k2 tr2)
    then show ?thesis using True
      by (simp add: this2_def this1_def Append_def r_def [symmetric] ls_def [symmetric]
          suf_def [symmetric])
  next
    case False
    have "Write this p = Inr (this2, int (length p), None)"
      using False cb1 by (auto simp add: Write_def Let_def this1_def [symmetric] sl1 loop k2)
    moreover have "buffer this2 = \<lparr>byteBuffer = bb @ p,
        LastNewlineOffset = off + int (length (terminated ls))\<rparr>"
      using lpre by (simp add: this2_def this1_def Append_def bb_def)
    moreover have "(if ls \<noteq> [] \<and> \<not> keepBuffer this then x else y) = y" for x y :: simpleGrowingBuffer
      using False by (rule if_not_P)
    ultimately show ?thesis
      by (simp add: this2_def this1_def r_def [symmetric] ls_def [symmetric]
          bb_def [symmetric] off_def [symmetric])
  qed
qed

lemma unconsumed_after:
  assumes "buffer_ok b"
  shows "drop (nat (LastNewlineOffset b +
             int (length (terminated (lines_from [] (unconsumed b @ p))))))
           (byteBuffer b @ p) = rest_from [] (unconsumed b @ p)"
    and "LastNewlineOffset b + int (length (terminated (lines_from [] (unconsumed b @ p))))
           \<le> int (length (byteBuffer b @ p))"
proof -
  define pre where "pre = take (nat (LastNewlineOffset b)) (byteBuffer b)"
  define ls where "ls = lines_from [] (unconsumed b @ p)"
  define suf where "suf = rest_from [] (unconsumed b @ p)"
  from assms have "nat (LastNewlineOffset b) \<le> length (byteBuffer b)"
    unfolding buffer_ok_def by linarith
  then have "length pre = nat (LastNewlineOffset b)" by (simp add: pre_def)
  with assms have lp: "int (length pre) = LastNewlineOffset b"
    by (simp add: buffer_ok_def)
  have "byteBuffer b = pre @ unconsumed b" by (simp add: pre_def unconsumed_def)
  moreover have "unconsumed b @ p = terminated ls @ suf"
    using split_from [of "[]" "unconsumed b @ p"] by (simp add: ls_def suf_def)
  ultimately have e: "byteBuffer b @ p = (pre @ terminated ls) @ suf" by simp
  have n: "nat (LastNewlineOffset b + int (length (terminated ls))) = length (pre @ terminated ls)"
    using lp [symmetric] by (simp add: nat_add_distrib)
  have "drop (length xs) (xs @ suf) = suf" for xs :: bytes by simp
  from this [of "pre @ terminated ls"]
  show "drop (nat (LastNewlineOffset b +
             int (length (terminated (lines_from [] (unconsumed b @ p))))))
           (byteBuffer b @ p) = rest_from [] (unconsumed b @ p)"
    unfolding ls_def [symmetric] suf_def [symmetric] n e .
  show "LastNewlineOffset b + int (length (terminated (lines_from [] (unconsumed b @ p))))
           \<le> int (length (byteBuffer b @ p))"
    unfolding ls_def [symmetric] e using lp [symmetric] by simp
qed

lemma Write_buffer_ok:
  assumes "buffer_ok (buffer this)"
  shows "\<exists>this'. Write this p = Inr (this', int (length p), None) \<and> buffer_ok (buffer this') \<and>
           same_setup this' this"
proof (cases "callback this = None")
  case True
  with assms show ?thesis
    by (simp add: Write_def Let_def Append_def buffer_ok_def same_setup_def)
next
  case False
  from assms have "0 \<le> LastNewlineOffset (buffer this)" by (simp add: buffer_ok_def)
  with unconsumed_after(2) [OF assms, of p] show ?thesis
    unfolding Write_effect [OF False assms]
    by (simp add: buffer_ok_def same_setup_def)
qed

lemma Write_tracks:
  assumes cb: "callback this \<noteq> None" and tr: "tracks this S"
  shows "\<exists>this'. Write this p = Inr (this', int (length p), None) \<and> tracks this' (S @ p) \<and>
           same_setup this' this"
proof -
  define r where "r = rest_from [] S"
  from tr have ok: "buffer_ok (buffer this)" and un: "unconsumed (buffer this) = r"
    and cl: "calls this = map (\<lambda>l. (l, callbackPayload this)) (lines_from [] S)"
    and kp: "if keepBuffer this then byteBuffer (buffer this) = S
             else LastNewlineOffset (buffer this) = 0"
    by (simp_all add: tracks_def r_def)
  have rclean: "nl \<notin> set r" unfolding r_def by (rule rest_from_clean) simp
  have linesSp: "lines_from [] (S @ p) = lines_from [] S @ lines_from [] (r @ p)"
    using lines_from_cur [OF rclean, of p] by (simp add: lines_from_append r_def)
  have restSp: "rest_from [] (S @ p) = rest_from [] (r @ p)"
    using rest_from_cur [OF rclean, of p] by (simp add: rest_from_append r_def)
  note after = unconsumed_after [OF ok, of p, unfolded un]
  from ok have nonneg: "0 \<le> LastNewlineOffset (buffer this)" by (simp add: buffer_ok_def)
  show ?thesis
  proof (cases "lines_from [] (r @ p) \<noteq> [] \<and> \<not> keepBuffer this")
    case True
    then show ?thesis unfolding Write_effect [OF cb ok] un
      by (simp add: tracks_def same_setup_def buffer_ok_def unconsumed_def cl linesSp restSp)
  next
    case False
    show ?thesis
    proof (cases "keepBuffer this")
      case True
      with kp have "byteBuffer (buffer this) = S" by simp
      with True after nonneg show ?thesis unfolding Write_effect [OF cb ok] un
        by (simp add: tracks_def same_setup_def buffer_ok_def unconsumed_def cl linesSp restSp)
    next
      case nk: False
      with False have e: "lines_from [] (r @ p) = []" by simp
      from nk kp have z: "LastNewlineOffset (buffer this) = 0" by simp
      from after(1) have "rest_from [] (r @ p) = byteBuffer (buffer this) @ p"
        by (simp add: e z terminated_def)
      with nk show ?thesis unfolding Write_effect [OF cb ok] un
        by (simp add: tracks_def same_setup_def buffer_ok_def unconsumed_def cl linesSp restSp
            e z terminated_def)
    qed
  qed
qed

lemma buffer_ok_New: "buffer_ok (buffer (NewCompositeWriter t cb payload keep))"
  by (simp add: buffer_ok_def NewCompositeWriter_def)

lemma tracks_New: "tracks (NewCompositeWriter t cb payload keep) []"
  by (simp add: tracks_def NewCompositeWriter_def buffer_ok_def unconsumed_def)

lemma Writes_tracks:
  "callback this \<noteq> None \<Longrightarrow> tracks this S \<Longrightarrow>
   \<exists>this'. Writes this chunks = Inr this' \<and> tracks this' (S @ concat chunks) \<and> same_setup this' this"
proof (induction chunks arbitrary: this S)
  case Nil
  then show ?case by (simp add: same_setup_def)
next
  case (Cons p ps)
  from Write_tracks [OF Cons.prems, of p] obtain this1 where
    w: "Write this p = Inr (this1, int (length p), None)" and t1: "tracks this1 (S @ p)"
    and s1: "same_setup this1 this" by blast
  from s1 Cons.prems(1) have cb1: "callback this1 \<noteq> None" by (simp add: same_setup_def)
  from Cons.IH [OF cb1 t1] obtain this' where
    "Writes this1 ps = Inr this'" "tracks this' ((S @ p) @ concat ps)" "same_setup this' this1"
    by blast
  with w s1 show ?case by (auto simp: same_setup_def)
qed

lemma Writes_buffer_ok:
  "buffer_ok (buffer this) \<Longrightarrow>
   \<exists>this'. Writes this chunks = Inr this' \<and> buffer_ok (buffer this') \<and> same_setup this' this"
proof (induction chunks arbitrary: this)
  case Nil
  then show ?case by (simp add: same_setup_def)
next
  case (Cons p ps)
  from Write_buffer_ok [OF Cons.prems, of p] obtain this1 where
    w: "Write this p = Inr (this1, int (length p), None)" and t1: "buffer_ok (buffer this1)"
    and s1: "same_setup this1 this" by blast
  from Cons.IH [OF t1] obtain this' where
    "Writes this1 ps = Inr this'" "buffer_ok (buffer this')" "same_setup this' this1"
    by blast
  with w s1 show ?case by (auto simp: same_setup_def)
qed

lemma Finalize_effect:
  assumes "buffer_ok (buffer this)"
  shows "Finalize this =
    Inr (if callback this \<noteq> None \<and> unconsumed (buffer this) \<noteq> []
         then this\<lparr>buffer := (if keepBuffer this
                                then (buffer this)\<lparr>LastNewlineOffset :=
                                       int (length (byteBuffer (buffer this)))\<rparr>
                                else \<lparr>byteBuffer = [], LastNewlineOffset = 0\<rparr>),
                    calls := calls this @ [(unconsumed (buffer this), callbackPayload this)]\<rparr>
         else this)"
proof -
  define bb where "bb = byteBuffer (buffer this)"
  define off where "off = LastNewlineOffset (buffer this)"
  define r where "r = unconsumed (buffer this)"
  from assms have off: "0 \<le> off" "off \<le> int (length bb)"
    by (simp_all add: buffer_ok_def bb_def off_def)
  have len: "int (length r) = SliceLength (buffer this)"
    using off by (simp add: r_def unconsumed_def SliceLength_def bb_def off_def)
  show ?thesis
  proof (cases "callback this \<noteq> None \<and> r \<noteq> []")
    case False
    then have "callback this = None \<or> \<not> SliceLength (buffer this) > 0"
      using len by auto
    then have "Finalize this = Inr this" by (auto simp: Finalize_def Let_def)
    moreover have "(if callback this \<noteq> None \<and> r \<noteq> [] then x else y) = y" for x y :: CompositeWriter
      using False by (rule if_not_P)
    ultimately show ?thesis by (simp only: r_def)
  next
    case True
    then have "0 < int (length r)" by simp
    then have pos: "SliceLength (buffer this) > 0" using len by simp
    have "length r = nat (SliceLength (buffer this))" using len by simp
    then have sn: "SliceNext (buffer this) (SliceLength (buffer this)) = Inr r"
      using off
      by (simp add: SliceNext_def SliceLength_def slice_range_def r_def unconsumed_def
          bb_def [symmetric] off_def [symmetric])
    have "Finalize this =
        Inr (if \<not> keepBuffer this then (invoke this r)\<lparr>buffer := Reset (buffer this)\<rparr>
             else (invoke this r)\<lparr>buffer := IncrementOffset (buffer this) (SliceLength (buffer this))\<rparr>)"
      using pos True by (simp add: Finalize_def Let_def sn)
    with True show ?thesis
      by (simp add: invoke_def Reset_def IncrementOffset_def SliceLength_def r_def)
  qed
qed

lemma Finalize_buffer_ok:
  assumes "buffer_ok (buffer this)"
  shows "\<exists>fin. Finalize this = Inr fin \<and> buffer_ok (buffer fin) \<and> same_setup fin this"
  unfolding Finalize_effect [OF assms] using assms
  by (simp add: buffer_ok_def same_setup_def)

lemma Finalize_tracks:
  assumes cb: "callback this \<noteq> None" and tr: "tracks this S"
  shows "\<exists>this'. Finalize this = Inr this' \<and>
           calls this' = calls this @ (if rest_from [] S = [] then [] else [(rest_from [] S, callbackPayload this)]) \<and>
           byteBuffer (buffer this') = (if keepBuffer this then S else []) \<and> 
           SliceLength (buffer this') = 0 \<and>
           same_setup this' this"
proof -
  from tr have ok: "buffer_ok (buffer this)" and un: "unconsumed (buffer this) = rest_from [] S"
    and kp: "if keepBuffer this then byteBuffer (buffer this) = S
             else LastNewlineOffset (buffer this) = 0"
    by (simp_all add: tracks_def)
  show ?thesis
  proof (cases "rest_from [] S = []")
    case True
    from un True have "length (byteBuffer (buffer this)) \<le> nat (LastNewlineOffset (buffer this))"
      by (simp add: unconsumed_def)
    with ok have "SliceLength (buffer this) = 0"
      unfolding buffer_ok_def SliceLength_def by linarith
    moreover from this kp have "\<not> keepBuffer this \<Longrightarrow> byteBuffer (buffer this) = []"
      by (simp add: SliceLength_def)
    ultimately show ?thesis unfolding Finalize_effect [OF ok] un using True kp
      by (auto simp: same_setup_def)
  next
    case False
    then show ?thesis unfolding Finalize_effect [OF ok] un using cb kp
      by (simp add: same_setup_def SliceLength_def)
  qed
qed

lemma terminated_snoc: "terminated (ls @ [l]) = terminated ls @ l @ [nl]"
  by (simp add: terminated_def)

lemma pending_line_terminated:
  assumes "nl \<notin> set suf"
  shows "pending_line (terminated ls @ suf) = suf"
proof (cases ls rule: rev_cases)
  case Nil
  have "takeWhile (\<lambda>c. c \<noteq> nl) (rev suf) = rev suf"
    by (rule takeWhile_eq_all_conv [THEN iffD2]) (use assms in auto)
  then have "rev (takeWhile (\<lambda>c. c \<noteq> nl) (rev suf)) = suf"
    by (simp only: rev_rev_ident)
  then show ?thesis by (simp add: Nil pending_line_def terminated_def)
next
  case (snoc ks l)
  have "rev (terminated ls @ suf) = rev suf @ nl # rev (terminated ks @ l)"
    by (simp add: snoc terminated_snoc)
  moreover have "takeWhile (\<lambda>c. c \<noteq> nl) (rev suf @ nl # rev (terminated ks @ l)) = rev suf"
    using assms by (subst takeWhile_append2) auto
  ultimately show ?thesis by (simp add: pending_line_def)
qed

lemma rest_from_pending: "rest_from [] s = pending_line s"
proof -
  have "pending_line (terminated (lines_from [] s) @ rest_from [] s) = rest_from [] s"
    by (rule pending_line_terminated) (rule rest_from_clean, simp)
  then show ?thesis using split_from [of "[]" s] by simp
qed

lemma pending_le_longest: "length (pending_line s) \<le> longest_unterminated_line s"
proof -
  have "length (pending_line (take (length s) s)) \<in>
          set (map (\<lambda>k. length (pending_line (take k s))) [0..<Suc (length s)])"
    by (simp only: set_map set_upt) (rule imageI, simp)
  then show ?thesis unfolding longest_unterminated_line_def
    by (simp only: take_all order_refl) (rule Max_ge, simp)
qed

lemma Write_no_callback:
  "callback this = None \<Longrightarrow>
   Write this p = Inr (this\<lparr>buffer := Append (buffer this) p\<rparr>, int (length p), None)"
  by (simp add: Write_def Let_def)

lemma Writes_no_callback:
  "callback this = None \<Longrightarrow>
   Writes this chunks =
     Inr (this\<lparr>buffer := (buffer this)\<lparr>byteBuffer := byteBuffer (buffer this) @ concat chunks\<rparr>\<rparr>)"
proof (induction chunks arbitrary: this)
  case Nil
  then show ?case by simp
next
  case (Cons p ps)
  have "callback (this\<lparr>buffer := Append (buffer this) p\<rparr>) = None" using Cons.prems by simp
  from Cons.IH [OF this] show ?case
    by (simp add: Write_no_callback [OF Cons.prems] Append_def)
qed

lemma Writes_New_tracks:
  "\<exists>this. Writes (NewCompositeWriter t (Some cb) payload keep) chunks = Inr this \<and>
     tracks this (concat chunks) \<and> callback this = Some cb \<and> callbackPayload this = payload \<and>
     keepBuffer this = keep"
proof -
  have "callback (NewCompositeWriter t (Some cb) payload keep) \<noteq> None"
    by (simp add: NewCompositeWriter_def)
  from Writes_tracks [OF this tracks_New, of chunks]
  show ?thesis by (auto simp: same_setup_def NewCompositeWriter_def)
qed

section \<open>Lemmas on the execution\<close>

lemma Begin_ExitCode: "ExitCode (fst (Begin os self)) = ExitCode self"
  by (simp add: Begin_def Let_def split: option.splits)

lemma Begin_WrappedCmd_error:
  "snd (Begin os self) \<noteq> None \<Longrightarrow> WrappedCmd (fst (Begin os self)) = WrappedCmd self"
  by (auto simp: Begin_def Let_def split: option.splits if_splits)

lemma Begin_WrappedCmd_ok:
  "snd (Begin os self) = None \<Longrightarrow> WrappedCmd (fst (Begin os self)) \<noteq> None"
  by (auto simp: Begin_def Let_def split: option.splits if_splits)

lemma Begin_error_origin:
  "snd (Begin os self) = Some e \<Longrightarrow>
   (AutoReadStdout self \<and> StdoutPipe os = Some e) \<or> (AutoReadStderr self \<and> StderrPipe os = Some e)"
  by (auto simp: Begin_def Let_def split: option.splits if_splits)

lemma Run_classify_ExitCode:
  "(if snd (Run_classify err self) = Returned None
    then (case err of
            None \<Rightarrow> ExitCode (fst (Run_classify err self)) = 0
          | Some (ExitError (Some st)) \<Rightarrow> ExitCode (fst (Run_classify err self)) = ExitStatus st
          | _ \<Rightarrow> False)
    else ExitCode (fst (Run_classify err self)) = ExitCode self)"
  by (simp add: Run_classify_def split: option.splits wait_error.splits)

lemma settled_classify: "ExitCode s = ExitCode self \<Longrightarrow> settled os self (Run_classify (Wait os) s)"
  using Run_classify_ExitCode [of "Wait os" s] by (simp add: settled_def)

lemma settled_stop: "ExitCode s = ExitCode self \<Longrightarrow> out \<noteq> Returned None \<Longrightarrow> settled os self (s, out)"
  by (simp add: settled_def)

lemma settled_wait: "ExitCode s = ExitCode self \<Longrightarrow> settled os self (Run_wait os s cmd)"
  unfolding Run_wait_def Let_def
  by (auto split: sum.splits prod.splits intro!: settled_classify settled_stop)

lemma settled_read: "ExitCode s = ExitCode self \<Longrightarrow> settled os self (Run_read os s cmd)"
  unfolding Run_read_def
  by (auto split: sum.splits intro!: settled_wait settled_stop)

lemma settled_Run: "settled os self (Run os self)"
proof -
  have b: "ExitCode (fst (Begin os self)) = ExitCode self" by (rule Begin_ExitCode)
  show ?thesis
    unfolding Run_def using b
    by (auto split: prod.splits option.splits sum.splits if_splits
        intro!: settled_read settled_stop)
qed

lemma settled_RunWithCallbacks:
  "settled os this (RunWithCallbacks os this cb1 cb2 p1 p2 k1 k2)"
proof -
  define this2 where "this2 =
    (let this1 = (if cb1 \<noteq> None then this\<lparr>AutoReadStdout := False\<rparr> else this)
     in if cb2 \<noteq> None then this1\<lparr>AutoReadStderr := False\<rparr> else this1)"
  have e2: "ExitCode this2 = ExitCode this" by (simp add: this2_def Let_def)
  have e3: "ExitCode (fst (Begin os this2)) = ExitCode this"
    using Begin_ExitCode [of os this2] e2 by simp
  have run: "settled os this (Run os s)" if "ExitCode s = ExitCode this" for s
    using settled_Run [of os s] that by (simp add: settled_def)
  show ?thesis
  proof (cases "Begin os this2")
    case (Pair this3 e)
    with e3 have e: "ExitCode this3 = ExitCode this" by simp
    show ?thesis
    proof (cases e)
      case (Some err)
      with Pair e show ?thesis
        by (simp add: RunWithCallbacks_def Let_def this2_def settled_def)
    next
      case None
      show ?thesis
      proof (cases "WrappedCmd this3")
        case n: None
        with Pair None e show ?thesis
          by (simp add: RunWithCallbacks_def Let_def this2_def settled_def)
      next
        case (Some cmd)
        with Pair None show ?thesis
          by (simp add: RunWithCallbacks_def Let_def this2_def run e)
      qed
    qed
  qed
qed

lemma Begin_writers:
  "Begin os self = (s, None) \<Longrightarrow>
   \<exists>cmd. WrappedCmd s = Some cmd \<and> Process cmd = None \<and>
     Cmd_Stdout cmd \<in> {None, Some PipeWriter} \<and> Cmd_Stderr cmd \<in> {None, Some PipeWriter}"
  by (auto simp: Begin_def Let_def exec_Command_def split: option.splits if_splits)

lemma Run_classify_exit:
  "Run_classify (Wait_of_exit_status n) s = (s\<lparr>ExitCode := n\<rparr>, Returned None)"
  by (simp add: Run_classify_def Wait_of_exit_status_def)

lemma Run_unprepared:
  assumes "WrappedCmd s = None"
  shows "Run os s = (case Begin os s of
                       (s1, Some err) \<Rightarrow> (s1, Returned (Some err))
                     | (s1, None) \<Rightarrow> Run os s1)"
proof (cases "Begin os s")
  case (Pair s1 e)
  show ?thesis
  proof (cases e)
    case None
    with Pair Begin_WrappedCmd_ok [of os s] obtain cmd where "WrappedCmd s1 = Some cmd" by auto
    with Pair None assms show ?thesis by (simp add: Run_def)
  next
    case (Some err)
    with Pair assms show ?thesis by (simp add: Run_def)
  qed
qed

lemma deliver_ok:
  assumes "writer_ok w"
  shows "\<exists>w'. deliver w chunks = Inr w' \<and> writer_ok w'"
proof (cases "\<exists>cw. w = Some (Composite cw)")
  case True
  then obtain cw where w: "w = Some (Composite cw)" by blast
  with assms have "buffer_ok (buffer cw)" by (simp add: writer_ok_def)
  from Writes_buffer_ok [OF this, of chunks] show ?thesis
    by (auto simp: w deliver_def writer_ok_def)
next
  case False
  then have "deliver w chunks = Inr w"
    by (auto simp: deliver_def split: option.splits Writer.splits)
  with assms show ?thesis by simp
qed

lemma finalize_writer_ok:
  assumes "writer_ok w"
  shows "\<exists>w' out'. finalize_writer w out = Inr (w', out')"
proof (cases "\<exists>cw. w = Some (Composite cw)")
  case True
  then obtain cw where w: "w = Some (Composite cw)" by blast
  with assms have "buffer_ok (buffer cw)" by (simp add: writer_ok_def)
  from Finalize_buffer_ok [OF this] show ?thesis
    by (auto simp: w finalize_writer_def ToString_def)
next
  case False
  then show ?thesis
    by (auto simp: finalize_writer_def split: option.splits Writer.splits)
qed

lemma Run_wait_exit:
  assumes "writer_ok (Cmd_Stdout cmd)" and "writer_ok (Cmd_Stderr cmd)"
    and "Wait os = Wait_of_exit_status n"
  shows "snd (Run_wait os s cmd) = Returned None \<and> ExitCode (fst (Run_wait os s cmd)) = n"
proof -
  from deliver_ok [OF assms(1)] obtain w1 where
    d1: "deliver (Cmd_Stdout cmd) (Stdout_writes os) = Inr w1" and o1: "writer_ok w1" by blast
  from deliver_ok [OF assms(2)] obtain w2 where
    d2: "deliver (Cmd_Stderr cmd) (Stderr_writes os) = Inr w2" and o2: "writer_ok w2" by blast
  from finalize_writer_ok [OF o1] obtain w3 out where
    f1: "finalize_writer w1 (Stdout s) = Inr (w3, out)" by blast
  from finalize_writer_ok [OF o2] obtain w4 errout where
    f2: "finalize_writer w2 (Stderr s) = Inr (w4, errout)" by blast
  show ?thesis
    by (simp add: Run_wait_def Let_def d1 d2 f1 f2 assms(3) Run_classify_exit)
qed

lemma Run_read_exit:
  assumes "writer_ok (Cmd_Stdout cmd)" and "writer_ok (Cmd_Stderr cmd)"
    and "ReadAll_Stdout os = Inr out" and "ReadAll_Stderr os = Inr errout"
    and "Wait os = Wait_of_exit_status n"
  shows "snd (Run_read os s cmd) = Returned None \<and> ExitCode (fst (Run_read os s cmd)) = n"
  using Run_wait_exit [OF assms(1,2,5)]
  by (simp add: Run_read_def assms(3,4))

lemma Run_prepared_exit:
  assumes "WrappedCmd s = Some cmd" and "Process cmd = None"
    and "writer_ok (Cmd_Stdout cmd)" and "writer_ok (Cmd_Stderr cmd)"
    and "Start os = None"
    and "ReadAll_Stdout os = Inr out" and "ReadAll_Stderr os = Inr errout"
    and "Wait os = Wait_of_exit_status n"
  shows "snd (Run os s) = Returned None \<and> ExitCode (fst (Run os s)) = n"
proof -
  let ?cmd = "cmd\<lparr>Process := Some Started\<rparr>"
  have r: "Run os s = Run_read os (s\<lparr>WrappedCmd := Some ?cmd\<rparr>) ?cmd"
    using assms(1,2,5) by (simp add: Run_def)
  have "writer_ok (Cmd_Stdout ?cmd)" "writer_ok (Cmd_Stderr ?cmd)"
    using assms(3,4) by simp_all
  from Run_read_exit [OF this assms(6,7,8)] show ?thesis unfolding r .
qed

lemma Begin_succeeds:
  assumes "StdoutPipe os = None" and "StderrPipe os = None"
  shows "\<exists>s cmd. Begin os self = (s, None) \<and> WrappedCmd s = Some cmd \<and> Process cmd = None \<and>
           writer_ok (Cmd_Stdout cmd) \<and> writer_ok (Cmd_Stderr cmd)"
proof -
  have "snd (Begin os self) = None"
    using assms
    by (cases "AutoReadStdout self"; cases "AutoReadStderr self")
      (simp_all add: Begin_def Let_def split: option.splits)
  then obtain s where b: "Begin os self = (s, None)"
    by (cases "Begin os self") simp
  from Begin_writers [OF b] b show ?thesis by (auto simp: writer_ok_def)
qed

lemma writer_ok_New: "writer_ok (Some (Composite (NewCompositeWriter t cb payload keep)))"
  by (simp add: writer_ok_def NewCompositeWriter_def buffer_ok_def)

lemma RunWithCallbacks_exit:
  assumes "StdoutPipe os = None" and "StderrPipe os = None" and "Start os = None"
    and "ReadAll_Stdout os = Inr out" and "ReadAll_Stderr os = Inr errout"
    and "Wait os = Wait_of_exit_status n"
  shows "snd (RunWithCallbacks os this cb1 cb2 p1 p2 k1 k2) = Returned None \<and>
         ExitCode (fst (RunWithCallbacks os this cb1 cb2 p1 p2 k1 k2)) = n"
proof -
  define this2 where "this2 =
    (let this1 = (if cb1 \<noteq> None then this\<lparr>AutoReadStdout := False\<rparr> else this)
     in if cb2 \<noteq> None then this1\<lparr>AutoReadStderr := False\<rparr> else this1)"
  from Begin_succeeds [OF assms(1,2), of this2] obtain s cmd where
    b: "Begin os this2 = (s, None)" and c: "WrappedCmd s = Some cmd" "Process cmd = None"
    "writer_ok (Cmd_Stdout cmd)" "writer_ok (Cmd_Stderr cmd)" by blast
  define cmd2 where "cmd2 =
    (let cmd1 = (if cb1 \<noteq> None
                 then cmd\<lparr>Cmd_Stdout := Some (Composite (NewCompositeWriter STDOUT cb1 p1 k1))\<rparr>
                 else cmd)
     in if cb2 \<noteq> None
        then cmd1\<lparr>Cmd_Stderr := Some (Composite (NewCompositeWriter STDERR cb2 p2 k2))\<rparr>
        else cmd1)"
  have r: "RunWithCallbacks os this cb1 cb2 p1 p2 k1 k2 = Run os (s\<lparr>WrappedCmd := Some cmd2\<rparr>)"
    using b c(1) by (simp add: RunWithCallbacks_def Let_def this2_def cmd2_def)
  have "WrappedCmd (s\<lparr>WrappedCmd := Some cmd2\<rparr>) = Some cmd2" by simp
  moreover have "Process cmd2 = None" using c(2) by (simp add: cmd2_def Let_def)
  moreover have "writer_ok (Cmd_Stdout cmd2)" "writer_ok (Cmd_Stderr cmd2)"
    using c(3,4) by (simp_all add: cmd2_def Let_def writer_ok_New)
  ultimately show ?thesis unfolding r
    using assms(3-6) by (rule Run_prepared_exit)
qed

text \<open>
  With well-formed writers nothing before the classification fails, so what \<^verbatim>\<open>Run\<close> returns
  and leaves in \<^verbatim>\<open>ExitCode\<close> is what \<open>Run_classify\<close> makes of the result of \<^verbatim>\<open>Wait\<close>.
\<close>

lemma Run_classify_same:
  "ExitCode s' = ExitCode s \<Longrightarrow>
   snd (Run_classify e s') = snd (Run_classify e s) \<and>
   ExitCode (fst (Run_classify e s')) = ExitCode (fst (Run_classify e s))"
  by (simp add: Run_classify_def split: option.splits wait_error.splits)

lemma Run_wait_classify:
  assumes "writer_ok (Cmd_Stdout cmd)" and "writer_ok (Cmd_Stderr cmd)"
  shows "snd (Run_wait os s cmd) = snd (Run_classify (Wait os) s) \<and>
         ExitCode (fst (Run_wait os s cmd)) = ExitCode (fst (Run_classify (Wait os) s))"
proof -
  from deliver_ok [OF assms(1)] obtain w1 where
    d1: "deliver (Cmd_Stdout cmd) (Stdout_writes os) = Inr w1" and o1: "writer_ok w1" by blast
  from deliver_ok [OF assms(2)] obtain w2 where
    d2: "deliver (Cmd_Stderr cmd) (Stderr_writes os) = Inr w2" and o2: "writer_ok w2" by blast
  from finalize_writer_ok [OF o1] obtain w3 out where
    f1: "finalize_writer w1 (Stdout s) = Inr (w3, out)" by blast
  from finalize_writer_ok [OF o2] obtain w4 errout where
    f2: "finalize_writer w2 (Stderr s) = Inr (w4, errout)" by blast
  let ?s = "s\<lparr>Stdout := out, Stderr := errout,
    WrappedCmd := Some (cmd\<lparr>Cmd_Stdout := w3, Cmd_Stderr := w4\<rparr>)\<rparr>"
  have "Run_wait os s cmd = Run_classify (Wait os) ?s"
    by (simp add: Run_wait_def Let_def d1 d2 f1 f2)
  moreover have "ExitCode ?s = ExitCode s" by simp
  ultimately show ?thesis using Run_classify_same [of ?s s "Wait os"] by simp
qed

lemma Run_read_classify:
  assumes "writer_ok (Cmd_Stdout cmd)" and "writer_ok (Cmd_Stderr cmd)"
    and "ReadAll_Stdout os = Inr out" and "ReadAll_Stderr os = Inr errout"
  shows "snd (Run_read os s cmd) = snd (Run_classify (Wait os) s) \<and>
         ExitCode (fst (Run_read os s cmd)) = ExitCode (fst (Run_classify (Wait os) s))"
proof -
  obtain s2 where r: "Run_read os s cmd = Run_wait os s2 cmd" and e: "ExitCode s2 = ExitCode s"
    by (cases "StdoutReader s = None"; cases "StderrReader s = None")
      (simp_all add: Run_read_def assms(3,4))
  from Run_wait_classify [OF assms(1,2), of os s2] Run_classify_same [OF e, of "Wait os"]
  show ?thesis unfolding r by simp
qed

lemma Run_prepared_classify:
  assumes "WrappedCmd s = Some cmd" and "Process cmd = None"
    and "writer_ok (Cmd_Stdout cmd)" and "writer_ok (Cmd_Stderr cmd)"
    and "Start os = None"
    and "ReadAll_Stdout os = Inr out" and "ReadAll_Stderr os = Inr errout"
  shows "snd (Run os s) = snd (Run_classify (Wait os) s) \<and>
         ExitCode (fst (Run os s)) = ExitCode (fst (Run_classify (Wait os) s))"
proof -
  let ?cmd = "cmd\<lparr>Process := Some Started\<rparr>"
  let ?s = "s\<lparr>WrappedCmd := Some ?cmd\<rparr>"
  have r: "Run os s = Run_read os ?s ?cmd"
    using assms(1,2,5) by (simp add: Run_def)
  have "writer_ok (Cmd_Stdout ?cmd)" "writer_ok (Cmd_Stderr ?cmd)"
    using assms(3,4) by simp_all
  from Run_read_classify [OF this assms(6,7), of ?s]
    Run_classify_same [of ?s s "Wait os"]
  show ?thesis unfolding r by simp
qed

lemma Run_unprepared_classify:
  assumes "WrappedCmd self = None"
    and "StdoutPipe os = None" and "StderrPipe os = None" and "Start os = None"
    and "ReadAll_Stdout os = Inr out" and "ReadAll_Stderr os = Inr errout"
  shows "snd (Run os self) = snd (Run_classify (Wait os) self) \<and>
         ExitCode (fst (Run os self)) = ExitCode (fst (Run_classify (Wait os) self))"
proof -
  from Begin_succeeds [OF assms(2,3), of self] obtain s cmd where
    b: "Begin os self = (s, None)" and c: "WrappedCmd s = Some cmd" "Process cmd = None"
    "writer_ok (Cmd_Stdout cmd)" "writer_ok (Cmd_Stderr cmd)" by blast
  have r: "Run os self = Run os s" using Run_unprepared [OF assms(1), of os] b by simp
  have "ExitCode s = ExitCode self" using Begin_ExitCode [of os self] b by simp
  from Run_prepared_classify [OF c assms(4-6)] Run_classify_same [OF this, of "Wait os"]
  show ?thesis unfolding r by simp
qed

lemma RunWithCallbacks_classify:
  assumes "StdoutPipe os = None" and "StderrPipe os = None" and "Start os = None"
    and "ReadAll_Stdout os = Inr out" and "ReadAll_Stderr os = Inr errout"
  shows "snd (RunWithCallbacks os this cb1 cb2 p1 p2 k1 k2) = snd (Run_classify (Wait os) this) \<and>
         ExitCode (fst (RunWithCallbacks os this cb1 cb2 p1 p2 k1 k2)) =
           ExitCode (fst (Run_classify (Wait os) this))"
proof -
  define this2 where "this2 =
    (let this1 = (if cb1 \<noteq> None then this\<lparr>AutoReadStdout := False\<rparr> else this)
     in if cb2 \<noteq> None then this1\<lparr>AutoReadStderr := False\<rparr> else this1)"
  from Begin_succeeds [OF assms(1,2), of this2] obtain s cmd where
    b: "Begin os this2 = (s, None)" and c: "WrappedCmd s = Some cmd" "Process cmd = None"
    "writer_ok (Cmd_Stdout cmd)" "writer_ok (Cmd_Stderr cmd)" by blast
  have "ExitCode this2 = ExitCode this" by (simp add: this2_def Let_def)
  with Begin_ExitCode [of os this2] b have e: "ExitCode s = ExitCode this" by simp
  define cmd2 where "cmd2 =
    (let cmd1 = (if cb1 \<noteq> None
                 then cmd\<lparr>Cmd_Stdout := Some (Composite (NewCompositeWriter STDOUT cb1 p1 k1))\<rparr>
                 else cmd)
     in if cb2 \<noteq> None
        then cmd1\<lparr>Cmd_Stderr := Some (Composite (NewCompositeWriter STDERR cb2 p2 k2))\<rparr>
        else cmd1)"
  let ?s = "s\<lparr>WrappedCmd := Some cmd2\<rparr>"
  have r: "RunWithCallbacks os this cb1 cb2 p1 p2 k1 k2 = Run os ?s"
    using b c(1) by (simp add: RunWithCallbacks_def Let_def this2_def cmd2_def)
  have p: "WrappedCmd ?s = Some cmd2" by simp
  have q: "Process cmd2 = None" using c(2) by (simp add: cmd2_def Let_def)
  have w: "writer_ok (Cmd_Stdout cmd2)" "writer_ok (Cmd_Stderr cmd2)"
    using c(3,4) by (simp_all add: cmd2_def Let_def writer_ok_New)
  have "ExitCode ?s = ExitCode this" using e by simp
  from Run_prepared_classify [OF p q w assms(3-5)] Run_classify_same [OF this, of "Wait os"]
  show ?thesis unfolding r by simp
qed

lemma Run_classify_table:
  "(snd (Run_classify e s), ExitCode (fst (Run_classify e s))) =
     (case e of
        None \<Rightarrow> (Returned None, 0)
      | Some (ExitError None) \<Rightarrow> (Panicked ''cannot retrieve exit code'', ExitCode s)
      | Some (ExitError (Some st)) \<Rightarrow> (Returned None, ExitStatus st)
      | Some (OtherError err) \<Rightarrow> (Returned (Some err), ExitCode s))"
  by (simp add: Run_classify_def split: option.splits wait_error.splits)

section \<open>The line callback\<close>

text \<open>
  Claim C1. Let a writer have a registered callback, and let the chunks written to it
  concatenate to \<open>L1 nl L2 nl ... Ln nl\<close>, no \<open>Li\<close> holding a newline. Then no write panics
  and the callback has been invoked exactly \<open>n\<close> times, with \<open>L1\<close>, ..., \<open>Ln\<close> in this order
  and the stored payload, however the bytes are cut into chunks and in both retention modes.
\<close>

theorem Write_emits_every_line:
  assumes "\<forall>l\<in>set ls. nl \<notin> set l"
    and "concat chunks = concat (map (\<lambda>l. l @ [nl]) ls)"
  shows "\<exists>this. Writes (NewCompositeWriter t (Some cb) payload keep) chunks = Inr this \<and>
           calls this = map (\<lambda>l. (l, payload)) ls"
proof -
  from Writes_New_tracks [of t cb payload keep chunks] obtain this where
    w: "Writes (NewCompositeWriter t (Some cb) payload keep) chunks = Inr this"
    and t: "tracks this (concat chunks)" and p: "callbackPayload this = payload" by blast
  have "lines_from [] (terminated ls @ []) = ls"
    using assms(1) by (rule lines_from_terminated) simp
  then have "lines_from [] (concat chunks) = ls" using assms(2) by (simp add: terminated_def)
  with t p have "calls this = map (\<lambda>l. (l, payload)) ls" by (simp add: tracks_def)
  with w show ?thesis by blast
qed

text \<open>
  The stream \<open>a nl bc nl\<close>, delivered one byte per write and then in a single write.
\<close>

theorem Write_emits_every_line_witness:
  "(\<exists>this. Writes (NewCompositeWriter STDOUT (Some (Func ''theCallback'')) 7 False)
             [''a'', [nl], ''b'', ''c'', [nl]] = Inr this \<and>
          calls this = [(''a'', 7), (''bc'', 7)]) \<and>
   (\<exists>this. Writes (NewCompositeWriter STDOUT (Some (Func ''theCallback'')) 7 True)
             [''a'' @ [nl] @ ''bc'' @ [nl]] = Inr this \<and>
          calls this = [(''a'', 7), (''bc'', 7)])"
proof -
  have h1: "\<forall>l\<in>set [''a'', ''bc'']. nl \<notin> set l" by simp
  have h2: "concat [''a'', [nl], ''b'', ''c'', [nl]] = concat (map (\<lambda>l. l @ [nl]) [''a'', ''bc''])"
    by simp
  have h3: "concat [''a'' @ [nl] @ ''bc'' @ [nl]] = concat (map (\<lambda>l. l @ [nl]) [''a'', ''bc''])"
    by simp
  from Write_emits_every_line [OF h1 h2, of STDOUT "Func ''theCallback''" 7 False]
    Write_emits_every_line [OF h1 h3, of STDOUT "Func ''theCallback''" 7 True]
  show ?thesis by simp
qed

text \<open>
  Claim C2. For a writer that keeps its buffer, with or without a callback, every sequence
  of writes followed by \<^verbatim>\<open>Finalize\<close> returns, and \<^verbatim>\<open>ToString\<close> then returns exactly the
  concatenation of all chunks in the order they were written.
\<close>

theorem ToString_after_Finalize:
  "\<exists>this fin. Writes (NewCompositeWriter t cb payload True) chunks = Inr this \<and>
     Finalize this = Inr fin \<and> ToString fin = Inr (concat chunks)"
proof (cases cb)
  case None
  then show ?thesis
    by (simp add: Writes_no_callback NewCompositeWriter_def Finalize_def ToString_def
        Buffer_ToString_def)
next
  case (Some f)
  from Writes_New_tracks [of t f payload True chunks] obtain this where
    w: "Writes (NewCompositeWriter t (Some f) payload True) chunks = Inr this"
    and t: "tracks this (concat chunks)" and c: "callback this = Some f"
    and k: "keepBuffer this = True" by blast
  from c have "callback this \<noteq> None" by simp
  from Finalize_tracks [OF this t] obtain fin where
    "Finalize this = Inr fin" "byteBuffer (buffer fin) = concat chunks" "same_setup fin this"
    using k by auto
  with w k Some show ?thesis
    by (auto simp: ToString_def Buffer_ToString_def same_setup_def)
qed

theorem ToString_after_Finalize_witness:
  "\<exists>this fin. Writes (NewCompositeWriter STDOUT (Some (Func ''theCallback'')) 1 True)
       [''start'' @ [nl] @ ''line on'', '' stdout'' @ [nl] @ ''fin''] = Inr this \<and>
     Finalize this = Inr fin \<and>
     ToString fin = Inr (''start'' @ [nl] @ ''line on stdout'' @ [nl] @ ''fin'')"
  using ToString_after_Finalize [of STDOUT "Some (Func ''theCallback'')" 1
      "[''start'' @ [nl] @ ''line on'', '' stdout'' @ [nl] @ ''fin'']"]
  by simp

text \<open>
  Claim C3. Let a writer have a registered callback, and let the chunks written to it
  concatenate to the terminated lines \<open>L1\<close>, ..., \<open>Ln\<close> followed by a suffix without
  newline. The writes invoke the callback for the \<open>n\<close> terminated lines and for nothing
  else. \<^verbatim>\<open>Finalize\<close> then returns; when the suffix is not empty it adds exactly one
  invocation, carrying the suffix, and when the suffix is empty (the stream ends with a
  newline, or is empty) it adds none.
\<close>

theorem Finalize_emits_trailing_line:
  assumes "\<forall>l\<in>set ls. nl \<notin> set l" and "nl \<notin> set suf"
    and "concat chunks = concat (map (\<lambda>l. l @ [nl]) ls) @ suf"
  shows "\<exists>this fin. Writes (NewCompositeWriter t (Some cb) payload keep) chunks = Inr this \<and>
           calls this = map (\<lambda>l. (l, payload)) ls \<and>
           Finalize this = Inr fin \<and>
           calls fin = calls this @ (if suf = [] then [] else [(suf, payload)])"
proof -
  from Writes_New_tracks [of t cb payload keep chunks] obtain this where
    w: "Writes (NewCompositeWriter t (Some cb) payload keep) chunks = Inr this"
    and t: "tracks this (concat chunks)" and p: "callbackPayload this = payload"
    and c: "callback this = Some cb" by blast
  have s: "concat chunks = terminated ls @ suf" using assms(3) by (simp add: terminated_def)
  have l: "lines_from [] (concat chunks) = ls"
    unfolding s using assms(1,2) by (rule lines_from_terminated)
  have r: "rest_from [] (concat chunks) = suf"
    unfolding s using assms(1,2) by (rule rest_from_terminated)
  from t p l have cl: "calls this = map (\<lambda>l. (l, payload)) ls" by (simp add: tracks_def)
  from c have "callback this \<noteq> None" by simp
  from Finalize_tracks [OF this t] obtain fin where
    "Finalize this = Inr fin"
    "calls fin = calls this @ (if suf = [] then [] else [(suf, payload)])"
    unfolding r p by blast
  with w cl show ?thesis by blast
qed

text \<open>
  The stream \<open>x nl abc\<close> with retention on, and the stream \<open>x nl\<close> with retention off.
\<close>

theorem Finalize_emits_trailing_line_witness:
  "(\<exists>this fin. Writes (NewCompositeWriter STDERR (Some (Func ''theCallback'')) 2 True)
        [''x'' @ [nl] @ ''a'', ''bc''] = Inr this \<and>
      calls this = [(''x'', 2)] \<and> Finalize this = Inr fin \<and>
      calls fin = calls this @ [(''abc'', 2)]) \<and>
   (\<exists>this fin. Writes (NewCompositeWriter STDERR (Some (Func ''theCallback'')) 2 False)
        [''x'', [nl]] = Inr this \<and>
      calls this = [(''x'', 2)] \<and> Finalize this = Inr fin \<and>
      calls fin = calls this @ [])"
proof -
  have a1: "\<forall>l\<in>set [''x'']. nl \<notin> set l" by simp
  have a2: "nl \<notin> set ''abc''" by simp
  have a3: "concat [''x'' @ [nl] @ ''a'', ''bc''] = concat (map (\<lambda>l. l @ [nl]) [''x'']) @ ''abc''"
    by simp
  have b2: "nl \<notin> set []" by simp
  have b3: "concat [''x'', [nl]] = concat (map (\<lambda>l. l @ [nl]) [''x'']) @ []" by simp
  from Finalize_emits_trailing_line [OF a1 a2 a3, of STDERR "Func ''theCallback''" 2 True]
    Finalize_emits_trailing_line [OF a1 b2 b3, of STDERR "Func ''theCallback''" 2 False]
  show ?thesis by simp
qed

section \<open>The buffer without retention\<close>

text \<open>
  Claim C4, as stated: for every writer that does not keep its buffer, after every write
  the buffer is no longer than the longest unterminated line seen so far. A writer
  without a callback does no newline tracking and only accumulates: after the writes
  \<open>a nl\<close> and \<open>b nl\<close> its buffer holds four bytes, and no unterminated line of that stream is
  longer than one byte.
\<close>

theorem buffer_bounded_counterexample:
  "\<not> buffer_bounded (Writes (NewCompositeWriter STDOUT None 0 False) [''a'' @ [nl], ''b'' @ [nl]])
       (concat [''a'' @ [nl], ''b'' @ [nl]])"
  by code_simp

text \<open>
  Claim C4, amended: for every writer that does not keep its buffer and has a registered
  callback, after every completed write the buffer holds exactly the unterminated line at
  the end of the stream written so far, at offset \<open>0\<close>. So no byte of an emitted line is
  retained across a write, and the buffer is no longer than the longest unterminated line
  seen so far.
\<close>

theorem Write_keeps_pending_line_only:
  "\<exists>this. Writes (NewCompositeWriter t (Some cb) payload False) chunks = Inr this \<and>
     byteBuffer (buffer this) = pending_line (concat chunks) \<and>
     LastNewlineOffset (buffer this) = 0 \<and>
     buffer_bounded (Writes (NewCompositeWriter t (Some cb) payload False) chunks) (concat chunks)"
proof -
  from Writes_New_tracks [of t cb payload False chunks] obtain this where
    w: "Writes (NewCompositeWriter t (Some cb) payload False) chunks = Inr this"
    and t: "tracks this (concat chunks)" and k: "keepBuffer this = False" by blast
  from t k have o: "LastNewlineOffset (buffer this) = 0" by (simp add: tracks_def)
  with t have b: "byteBuffer (buffer this) = pending_line (concat chunks)"
    by (simp add: tracks_def unconsumed_def rest_from_pending)
  have "length (byteBuffer (buffer this)) \<le> longest_unterminated_line (concat chunks)"
    unfolding b by (rule pending_le_longest)
  with w o b show ?thesis by (simp add: buffer_bounded_def)
qed

theorem Write_keeps_pending_line_only_witness:
  "\<exists>this. Writes (NewCompositeWriter STDOUT (Some (Func ''theCallback'')) 0 False)
       [''ab'' @ [nl] @ ''cd'', ''e''] = Inr this \<and>
     byteBuffer (buffer this) = ''cde'' \<and>
     LastNewlineOffset (buffer this) = 0 \<and>
     buffer_bounded (Writes (NewCompositeWriter STDOUT (Some (Func ''theCallback'')) 0 False)
       [''ab'' @ [nl] @ ''cd'', ''e'']) (''ab'' @ [nl] @ ''cde'')"
  using Write_keeps_pending_line_only [of STDOUT "Func ''theCallback''" 0
      "[''ab'' @ [nl] @ ''cd'', ''e'']"]
  by (simp add: pending_line_def)

section \<open>Reading the full history\<close>

text \<open>
  Claim C7. \<^verbatim>\<open>ToString\<close> on a writer that does not keep its buffer panics, with the
  message of the source, and returns no string; on a writer that keeps its buffer it
  returns the bytes of the buffer and does not panic.
\<close>

theorem ToString_panics_without_retention:
  "ToString this =
     (if keepBuffer this then Inr (byteBuffer (buffer this))
      else Inl ''KeepBuffer = false for this composite writer'')"
  by (simp add: ToString_def Buffer_ToString_def)

theorem ToString_panics_without_retention_witness:
  "ToString (NewCompositeWriter STDOUT (Some (Func ''theCallback'')) 0 False) =
     Inl ''KeepBuffer = false for this composite writer'' \<and>
   ToString (NewCompositeWriter STDOUT (Some (Func ''theCallback'')) 0 True) = Inr []"
  using ToString_panics_without_retention
      [of "NewCompositeWriter STDOUT (Some (Func ''theCallback'')) 0 False"]
    ToString_panics_without_retention
      [of "NewCompositeWriter STDOUT (Some (Func ''theCallback'')) 0 True"]
  by (simp add: NewCompositeWriter_def)

section \<open>Finalize twice\<close>

text \<open>
  Claim C10. For every writer whose offset is not negative (offsets start at \<open>0\<close> and are
  only increased or set to \<open>0\<close>, see \<open>Writes_buffer_ok\<close> and \<open>Finalize_buffer_ok\<close>), in
  both retention modes and with or without a callback, \<^verbatim>\<open>Finalize\<close> returns, and a second
  \<^verbatim>\<open>Finalize\<close> right after it returns the very same writer: no further invocation of the
  callback, the same buffer contents and the same offset.
\<close>

theorem Finalize_idempotent:
  assumes "0 \<le> LastNewlineOffset (buffer this)"
  shows "\<exists>fin. Finalize this = Inr fin \<and> Finalize fin = Inr fin"
proof (cases "callback this \<noteq> None \<and> SliceLength (buffer this) > 0")
  case False
  then have "Finalize this = Inr this" by (auto simp: Finalize_def Let_def)
  then show ?thesis by simp
next
  case True
  then have "LastNewlineOffset (buffer this) + SliceLength (buffer this)
      \<le> int (length (byteBuffer (buffer this)))"
    by (simp add: SliceLength_def)
  with assms True obtain line where
    sn: "SliceNext (buffer this) (SliceLength (buffer this)) = Inr line"
    by (auto simp: SliceNext_def slice_range_def)
  show ?thesis
  proof (cases "keepBuffer this")
    case k: True
    let ?fin = "(invoke this line)\<lparr>buffer := IncrementOffset (buffer this) (SliceLength (buffer this))\<rparr>"
    have f: "Finalize this = Inr ?fin" using True k by (simp add: Finalize_def Let_def sn)
    have "SliceLength (buffer ?fin) = 0" by (simp add: SliceLength_def IncrementOffset_def)
    then have "Finalize ?fin = Inr ?fin" by (simp add: Finalize_def Let_def)
    with f show ?thesis by simp
  next
    case k: False
    let ?fin = "(invoke this line)\<lparr>buffer := Reset (buffer this)\<rparr>"
    have f: "Finalize this = Inr ?fin" using True k by (simp add: Finalize_def Let_def sn)
    have "SliceLength (buffer ?fin) = 0" by (simp add: SliceLength_def Reset_def)
    then have "Finalize ?fin = Inr ?fin" by (simp add: Finalize_def Let_def)
    with f show ?thesis by simp
  qed
qed

text \<open>A writer that keeps its buffer, after the writes of \<open>x nl abc\<close>.\<close>

theorem Finalize_idempotent_witness:
  "0 \<le> LastNewlineOffset (buffer
       \<lparr>Type = 1, buffer = \<lparr>byteBuffer = ''x'' @ [nl] @ ''abc'', LastNewlineOffset = 2\<rparr>,
        keepBuffer = True, callback = Some (Func ''theCallback''), callbackPayload = 1,
        calls = [(''x'', 1)]\<rparr>) \<and>
   (\<exists>fin. Finalize
       \<lparr>Type = 1, buffer = \<lparr>byteBuffer = ''x'' @ [nl] @ ''abc'', LastNewlineOffset = 2\<rparr>,
        keepBuffer = True, callback = Some (Func ''theCallback''), callbackPayload = 1,
        calls = [(''x'', 1)]\<rparr> = Inr fin \<and> Finalize fin = Inr fin)"
proof -
  let ?w = "\<lparr>Type = 1, buffer = \<lparr>byteBuffer = ''x'' @ [nl] @ ''abc'', LastNewlineOffset = 2\<rparr>,
       keepBuffer = True, callback = Some (Func ''theCallback''), callbackPayload = 1,
       calls = [(''x'', 1)]\<rparr>"
  have h: "0 \<le> LastNewlineOffset (buffer ?w)" by simp
  from h Finalize_idempotent [OF h] show ?thesis by blast
qed

section \<open>Exit codes\<close>

text \<open>
  Claim C5. Take a request that is not yet prepared, as \<^verbatim>\<open>New\<close> returns it, and a process
  that runs (the pipes attach, the start succeeds, the output is read to its end) and
  exits with status \<open>n\<close>. Then \<^verbatim>\<open>Run\<close> returns \<^verbatim>\<open>nil\<close> and leaves exactly \<open>n\<close> in
  \<^verbatim>\<open>ExitCode\<close>, for \<open>n = 0\<close> and for every other \<open>n\<close>: a non-zero status is not returned
  as an error. The same holds for \<^verbatim>\<open>RunWithCallbacks\<close>, whatever callbacks, payloads and
  retention modes it is given and whatever output reaches the callbacks.
\<close>

theorem Run_returns_exit_status:
  assumes "WrappedCmd self = None"
    and "StdoutPipe os = None" and "StderrPipe os = None" and "Start os = None"
    and "ReadAll_Stdout os = Inr out" and "ReadAll_Stderr os = Inr errout"
    and "Wait os = Wait_of_exit_status n"
  shows "snd (Run os self) = Returned None \<and> ExitCode (fst (Run os self)) = n \<and>
         snd (RunWithCallbacks os self cb1 cb2 p1 p2 k1 k2) = Returned None \<and>
         ExitCode (fst (RunWithCallbacks os self cb1 cb2 p1 p2 k1 k2)) = n"
proof -
  from Begin_succeeds [OF assms(2,3), of self] obtain s cmd where
    b: "Begin os self = (s, None)" and c: "WrappedCmd s = Some cmd" "Process cmd = None"
    "writer_ok (Cmd_Stdout cmd)" "writer_ok (Cmd_Stderr cmd)" by blast
  have "Run os self = Run os s" using Run_unprepared [OF assms(1), of os] b by simp
  with Run_prepared_exit [OF c assms(4-7)]
  have "snd (Run os self) = Returned None \<and> ExitCode (fst (Run os self)) = n" by simp
  with RunWithCallbacks_exit [OF assms(2-7), of self cb1 cb2 p1 p2 k1 k2]
  show ?thesis by simp
qed

text \<open>
  The command \<^verbatim>\<open>false\<close>, which exits with \<open>1\<close>, and \<^verbatim>\<open>sh -c "exit 3"\<close> run with a
  callback on stdout.
\<close>

theorem Run_returns_exit_status_witness:
  "snd (Run (quiet_world\<lparr>Wait := Wait_of_exit_status 1\<rparr>) (New ''false'' [])) = Returned None \<and>
   ExitCode (fst (Run (quiet_world\<lparr>Wait := Wait_of_exit_status 1\<rparr>) (New ''false'' []))) = 1 \<and>
   snd (RunWithCallbacks (quiet_world\<lparr>Wait := Wait_of_exit_status 3\<rparr>)
          (New ''sh'' [''-c'', ''exit 3'']) (Some (Func ''theCallback'')) None 1 2 True True)
     = Returned None \<and>
   ExitCode (fst (RunWithCallbacks (quiet_world\<lparr>Wait := Wait_of_exit_status 3\<rparr>)
          (New ''sh'' [''-c'', ''exit 3'']) (Some (Func ''theCallback'')) None 1 2 True True))
     = 3"
proof -
  have a: "WrappedCmd (New c args) = None" for c args by (simp add: New_def)
  have b: "StdoutPipe (quiet_world\<lparr>Wait := Wait_of_exit_status n\<rparr>) = None"
    "StderrPipe (quiet_world\<lparr>Wait := Wait_of_exit_status n\<rparr>) = None"
    "Start (quiet_world\<lparr>Wait := Wait_of_exit_status n\<rparr>) = None"
    "ReadAll_Stdout (quiet_world\<lparr>Wait := Wait_of_exit_status n\<rparr>) = Inr []"
    "ReadAll_Stderr (quiet_world\<lparr>Wait := Wait_of_exit_status n\<rparr>) = Inr []"
    "Wait (quiet_world\<lparr>Wait := Wait_of_exit_status n\<rparr>) = Wait_of_exit_status n" for n
    by (simp_all add: quiet_world_def)
  from Run_returns_exit_status [OF a b [of 1], of "''false''" "[]"]
    Run_returns_exit_status [OF a b [of 3], of "''sh''" "[''-c'', ''exit 3'']"
      "Some (Func ''theCallback'')" None 1 2 True True]
  show ?thesis by simp
qed

text \<open>
  Claim C6. \<^verbatim>\<open>New\<close> sets \<^verbatim>\<open>ExitCode\<close> to \<open>-1\<close> and \<^verbatim>\<open>Begin\<close> does not touch it. For
  \<^verbatim>\<open>Run\<close> and for \<^verbatim>\<open>RunWithCallbacks\<close>, for every request and every behaviour of the
  process: when the call returned \<^verbatim>\<open>nil\<close>, the process was waited on and \<^verbatim>\<open>ExitCode\<close> is \<open>0\<close>
  if \<^verbatim>\<open>Wait\<close> reported normal termination and the reported exit status if it reported an
  exit error; in every other outcome (an error from preparation, start, reading or waiting,
  or a panic) \<^verbatim>\<open>ExitCode\<close> is what it was before, so still \<open>-1\<close> for a request from \<^verbatim>\<open>New\<close>.
  And the classification does happen: when the pipes attach, the start succeeds and the
  output is read to its end, the call returns \<^verbatim>\<open>nil\<close> with \<^verbatim>\<open>ExitCode\<close> set to \<open>0\<close> if
  \<^verbatim>\<open>Wait\<close> returned \<^verbatim>\<open>nil\<close>, returns \<^verbatim>\<open>nil\<close> with \<^verbatim>\<open>ExitCode\<close> set to the reported status
  if \<^verbatim>\<open>Wait\<close> returned an exit error with a wait status, panics with \<^verbatim>\<open>ExitCode\<close> unchanged
  if the exit error has no wait status, and returns the error with \<^verbatim>\<open>ExitCode\<close> unchanged
  if \<^verbatim>\<open>Wait\<close> returned any other error.
\<close>

theorem ExitCode_sentinel:
  "ExitCode (New command args) = - 1 \<and>
   ExitCode (fst (Begin os self)) = ExitCode self \<and>
   (if snd (Run os self) = Returned None
    then (case Wait os of
            None \<Rightarrow> ExitCode (fst (Run os self)) = 0
          | Some (ExitError (Some st)) \<Rightarrow> ExitCode (fst (Run os self)) = ExitStatus st
          | _ \<Rightarrow> False)
    else ExitCode (fst (Run os self)) = ExitCode self) \<and>
   (if snd (RunWithCallbacks os self cb1 cb2 p1 p2 k1 k2) = Returned None
    then (case Wait os of
            None \<Rightarrow> ExitCode (fst (RunWithCallbacks os self cb1 cb2 p1 p2 k1 k2)) = 0
          | Some (ExitError (Some st)) \<Rightarrow>
              ExitCode (fst (RunWithCallbacks os self cb1 cb2 p1 p2 k1 k2)) = ExitStatus st
          | _ \<Rightarrow> False)
    else ExitCode (fst (RunWithCallbacks os self cb1 cb2 p1 p2 k1 k2)) = ExitCode self) \<and>
   (StdoutPipe os = None \<and> StderrPipe os = None \<and> Start os = None \<and>
    ReadAll_Stdout os = Inr out \<and> ReadAll_Stderr os = Inr errout \<longrightarrow>
      (WrappedCmd self = None \<longrightarrow>
         (snd (Run os self), ExitCode (fst (Run os self))) =
           (case Wait os of
              None \<Rightarrow> (Returned None, 0)
            | Some (ExitError None) \<Rightarrow> (Panicked ''cannot retrieve exit code'', ExitCode self)
            | Some (ExitError (Some st)) \<Rightarrow> (Returned None, ExitStatus st)
            | Some (OtherError err) \<Rightarrow> (Returned (Some err), ExitCode self))) \<and>
      (snd (RunWithCallbacks os self cb1 cb2 p1 p2 k1 k2),
       ExitCode (fst (RunWithCallbacks os self cb1 cb2 p1 p2 k1 k2))) =
        (case Wait os of
           None \<Rightarrow> (Returned None, 0)
         | Some (ExitError None) \<Rightarrow> (Panicked ''cannot retrieve exit code'', ExitCode self)
         | Some (ExitError (Some st)) \<Rightarrow> (Returned None, ExitStatus st)
         | Some (OtherError err) \<Rightarrow> (Returned (Some err), ExitCode self)))"
proof -
  have a: "ExitCode (New command args) = - 1" by (simp add: New_def)
  have b: "ExitCode (fst (Begin os self)) = ExitCode self" by (rule Begin_ExitCode)
  note c = settled_Run [of os self, unfolded settled_def]
  note d = settled_RunWithCallbacks [of os self cb1 cb2 p1 p2 k1 k2, unfolded settled_def]
  have e: "(snd (Run os self), ExitCode (fst (Run os self))) =
           (case Wait os of
              None \<Rightarrow> (Returned None, 0)
            | Some (ExitError None) \<Rightarrow> (Panicked ''cannot retrieve exit code'', ExitCode self)
            | Some (ExitError (Some st)) \<Rightarrow> (Returned None, ExitStatus st)
            | Some (OtherError err) \<Rightarrow> (Returned (Some err), ExitCode self))"
    if "StdoutPipe os = None" "StderrPipe os = None" "Start os = None"
      "ReadAll_Stdout os = Inr out" "ReadAll_Stderr os = Inr errout" "WrappedCmd self = None"
    using Run_unprepared_classify [OF that(6) that(1-5)] Run_classify_table [of "Wait os" self]
    by simp
  have f: "(snd (RunWithCallbacks os self cb1 cb2 p1 p2 k1 k2),
       ExitCode (fst (RunWithCallbacks os self cb1 cb2 p1 p2 k1 k2))) =
        (case Wait os of
           None \<Rightarrow> (Returned None, 0)
         | Some (ExitError None) \<Rightarrow> (Panicked ''cannot retrieve exit code'', ExitCode self)
         | Some (ExitError (Some st)) \<Rightarrow> (Returned None, ExitStatus st)
         | Some (OtherError err) \<Rightarrow> (Returned (Some err), ExitCode self))"
    if "StdoutPipe os = None" "StderrPipe os = None" "Start os = None"
      "ReadAll_Stdout os = Inr out" "ReadAll_Stderr os = Inr errout"
    using RunWithCallbacks_classify [OF that, of self cb1 cb2 p1 p2 k1 k2]
      Run_classify_table [of "Wait os" self]
    by simp
  show ?thesis
    apply (intro conjI impI)
          apply (rule a)
         apply (rule b)
        apply (rule c)
       apply (rule d)
      apply (rule e; simp)
     apply (rule f; simp)
    done
qed

text \<open>
  A process that exits with status \<open>3\<close>, run by \<^verbatim>\<open>Run\<close> and by \<^verbatim>\<open>RunWithCallbacks\<close>; one
  that exits with \<open>0\<close>; and a wait error that is not an exit error, which \<^verbatim>\<open>Run\<close> returns
  while the code stays \<open>-1\<close>.
\<close>

theorem ExitCode_sentinel_witness:
  "(snd (Run (quiet_world\<lparr>Wait := Some (ExitError (Some (WaitStatus 3)))\<rparr>)
           (New ''sh'' [''-c'', ''exit 3''])),
    ExitCode (fst (Run (quiet_world\<lparr>Wait := Some (ExitError (Some (WaitStatus 3)))\<rparr>)
           (New ''sh'' [''-c'', ''exit 3''])))) = (Returned None, 3) \<and>
   (snd (Run quiet_world (New ''true'' [])),
    ExitCode (fst (Run quiet_world (New ''true'' [])))) = (Returned None, 0) \<and>
   (snd (Run (quiet_world\<lparr>Wait := Some (OtherError ''wait: no child processes'')\<rparr>)
           (New ''true'' [])),
    ExitCode (fst (Run (quiet_world\<lparr>Wait := Some (OtherError ''wait: no child processes'')\<rparr>)
           (New ''true'' [])))) = (Returned (Some ''wait: no child processes''), - 1) \<and>
   (snd (RunWithCallbacks (quiet_world\<lparr>Wait := Some (ExitError (Some (WaitStatus 3)))\<rparr>)
           (New ''sh'' [''-c'', ''exit 3'']) (Some (Func ''theCallback'')) None 1 2 True True),
    ExitCode (fst (RunWithCallbacks (quiet_world\<lparr>Wait := Some (ExitError (Some (WaitStatus 3)))\<rparr>)
           (New ''sh'' [''-c'', ''exit 3'']) (Some (Func ''theCallback'')) None 1 2 True True)))
     = (Returned None, 3)"
proof -
  let ?os3 = "quiet_world\<lparr>Wait := Some (ExitError (Some (WaitStatus 3)))\<rparr>"
  let ?oso = "quiet_world\<lparr>Wait := Some (OtherError ''wait: no child processes'')\<rparr>"
  have h: "StdoutPipe (quiet_world\<lparr>Wait := w\<rparr>) = None \<and> StderrPipe (quiet_world\<lparr>Wait := w\<rparr>) = None \<and>
      Start (quiet_world\<lparr>Wait := w\<rparr>) = None \<and> ReadAll_Stdout (quiet_world\<lparr>Wait := w\<rparr>) = Inr [] \<and>
      ReadAll_Stderr (quiet_world\<lparr>Wait := w\<rparr>) = Inr []" for w
    by (simp add: quiet_world_def)
  have h0: "StdoutPipe quiet_world = None \<and> StderrPipe quiet_world = None \<and>
      Start quiet_world = None \<and> ReadAll_Stdout quiet_world = Inr [] \<and>
      ReadAll_Stderr quiet_world = Inr []"
    and w0: "Wait quiet_world = None"
    by (simp_all add: quiet_world_def)
  have n: "WrappedCmd (New c a) = None" "ExitCode (New c a) = - 1" for c a
    by (simp_all add: New_def)
  have w: "Wait (quiet_world\<lparr>Wait := x\<rparr>) = x" for x by simp
  note t3 = ExitCode_sentinel [where os = ?os3
        and self = "New ''sh'' [''-c'', ''exit 3'']" and out = "[]" and errout = "[]"
        and ?cb1.0 = "Some (Func ''theCallback'')" and ?cb2.0 = None and ?p1.0 = 1 and ?p2.0 = 2
        and ?k1.0 = True and ?k2.0 = True]
  note t0 = ExitCode_sentinel [where os = quiet_world
        and self = "New ''true'' []" and out = "[]" and errout = "[]"]
  note to = ExitCode_sentinel [where os = ?oso
        and self = "New ''true'' []" and out = "[]" and errout = "[]"]
  from t3 [THEN conjunct2, THEN conjunct2, THEN conjunct2, THEN conjunct2, THEN mp, OF h]
  have r3: "(snd (Run ?os3 (New ''sh'' [''-c'', ''exit 3''])),
      ExitCode (fst (Run ?os3 (New ''sh'' [''-c'', ''exit 3''])))) = (Returned None, 3)"
    and c3: "(snd (RunWithCallbacks ?os3 (New ''sh'' [''-c'', ''exit 3''])
         (Some (Func ''theCallback'')) None 1 2 True True),
      ExitCode (fst (RunWithCallbacks ?os3 (New ''sh'' [''-c'', ''exit 3''])
         (Some (Func ''theCallback'')) None 1 2 True True))) = (Returned None, 3)"
    by (simp_all add: n)
  from t0 [THEN conjunct2, THEN conjunct2, THEN conjunct2, THEN conjunct2, THEN mp, OF h0]
  have r0: "(snd (Run quiet_world (New ''true'' [])),
      ExitCode (fst (Run quiet_world (New ''true'' [])))) = (Returned None, 0)"
    by (simp add: n w0)
  from to [THEN conjunct2, THEN conjunct2, THEN conjunct2, THEN conjunct2, THEN mp, OF h]
  have ro: "(snd (Run ?oso (New ''true'' [])),
      ExitCode (fst (Run ?oso (New ''true'' [])))) = (Returned (Some ''wait: no child processes''), - 1)"
    by (simp add: n)
  from r3 r0 ro c3 show ?thesis by simp
qed

section \<open>Preparation\<close>

text \<open>
  Claim C9. Take a request that is not yet prepared. If \<^verbatim>\<open>Begin\<close> returns an error, the
  error is the one of the stdout or of the stderr pipe, \<^verbatim>\<open>WrappedCmd\<close> is still \<^verbatim>\<open>nil\<close>, and
  a later \<^verbatim>\<open>Run\<close> prepares again: it returns the error of that \<^verbatim>\<open>Begin\<close>, or goes on with
  the request that \<^verbatim>\<open>Begin\<close> prepared. If \<^verbatim>\<open>Begin\<close> returns \<^verbatim>\<open>nil\<close>, \<^verbatim>\<open>WrappedCmd\<close> is set.
\<close>

theorem Begin_error_leaves_unprepared:
  assumes "WrappedCmd self = None"
  shows "(if snd (Begin os self) = None then WrappedCmd (fst (Begin os self)) \<noteq> None
          else WrappedCmd (fst (Begin os self)) = None \<and>
               (snd (Begin os self) = StdoutPipe os \<or> snd (Begin os self) = StderrPipe os) \<and>
               Run os' (fst (Begin os self)) =
                 (case Begin os' (fst (Begin os self)) of
                    (s1, Some err) \<Rightarrow> (s1, Returned (Some err))
                  | (s1, None) \<Rightarrow> Run os' s1))"
proof (cases "snd (Begin os self) = None")
  case True
  then show ?thesis using Begin_WrappedCmd_ok [of os self] by simp
next
  case False
  then have w: "WrappedCmd (fst (Begin os self)) = None"
    using Begin_WrappedCmd_error [of os self] assms by simp
  from False obtain e where "snd (Begin os self) = Some e" by auto
  from Begin_error_origin [OF this] this
  have "snd (Begin os self) = StdoutPipe os \<or> snd (Begin os self) = StderrPipe os" by auto
  with False w Run_unprepared [OF w, of os'] show ?thesis by simp
qed

text \<open>
  The stderr pipe fails after the stdout pipe was attached; a later \<^verbatim>\<open>Run\<close> in a world
  without failures prepares the request and returns \<^verbatim>\<open>nil\<close>.
\<close>

theorem Begin_error_leaves_unprepared_witness:
  "WrappedCmd (New ''ls'' []) = None \<and>
   snd (Begin (quiet_world\<lparr>StderrPipe := Some ''pipe: too many open files''\<rparr>) (New ''ls'' []))
     = Some ''pipe: too many open files'' \<and>
   WrappedCmd (fst (Begin (quiet_world\<lparr>StderrPipe := Some ''pipe: too many open files''\<rparr>)
     (New ''ls'' []))) = None \<and>
   snd (Run quiet_world (fst (Begin (quiet_world\<lparr>StderrPipe := Some ''pipe: too many open files''\<rparr>)
     (New ''ls'' [])))) = Returned None"
proof -
  let ?os = "quiet_world\<lparr>StderrPipe := Some ''pipe: too many open files''\<rparr>"
  have a: "WrappedCmd (New ''ls'' []) = None" by (simp add: New_def)
  have b: "snd (Begin ?os (New ''ls'' [])) = Some ''pipe: too many open files''"
    by (simp add: Begin_def New_def quiet_world_def Let_def)
  have c: "snd (Run quiet_world (fst (Begin ?os (New ''ls'' [])))) = Returned None"
    by (simp add: Run_def Begin_def New_def quiet_world_def exec_Command_def Run_read_def
        Run_wait_def deliver_def finalize_writer_def Run_classify_def Let_def)
  from Begin_error_leaves_unprepared [OF a, of ?os quiet_world] a b c
  show ?thesis by simp
qed

section \<open>The SSH argument list\<close>

text \<open>
  Claim C8. For every host \<open>h\<close> and argument list \<open>a\<close>, \<^verbatim>\<open>NewSsh\<close> builds a request for the
  command \<^verbatim>\<open>ssh\<close> whose arguments are, in this order: the extra options, the six tokens
  of the three fixed options, the host, and the elements of \<open>a\<close>.
\<close>

theorem NewSsh_argument_list:
  "Command (NewSsh ExtraSshOptions h a) = ''ssh'' \<and>
   Args (NewSsh ExtraSshOptions h a) =
     ExtraSshOptions @
     [''-o'', ''UserKnownHostsFile=/dev/null'', ''-o'', ''StrictHostKeyChecking=no'',
      ''-o'', ''LogLevel=ERROR''] @ [h] @ a"
  by (simp add: NewSsh_def prepareSshArgs_def New_def)

theorem NewSsh_argument_list_witness:
  "Command (NewSsh [''-p'', ''2222''] ''build.example.org'' [''uname'', ''-a'']) = ''ssh'' \<and>
   Args (NewSsh [''-p'', ''2222''] ''build.example.org'' [''uname'', ''-a'']) =
     [''-p'', ''2222'', ''-o'', ''UserKnownHostsFile=/dev/null'', ''-o'',
      ''StrictHostKeyChecking=no'', ''-o'', ''LogLevel=ERROR'', ''build.example.org'',
      ''uname'', ''-a'']"
  using NewSsh_argument_list [of "[''-p'', ''2222'']" "''build.example.org''" "[''uname'', ''-a'']"]
  by simp

end
